theory Spec2Isabelle
  imports Main "HOL-Library.Word"
begin

section \<open>The batch reader of TFMV/flight (duckdb\_batch\_reader.go)\<close>

text \<open>
  A shallow embedding of \<^verbatim>\<open>src/duckdb_batch_reader.go\<close>: the mapping from declared
  column types to Arrow types, the allocation of the scan destinations, the reference
  count, and \<^verbatim>\<open>Next\<close>, which drains the cursor into the record builder.

  What lies outside the file is modelled only as far as the file uses it:
  \<^item> the cursor (\<^verbatim>\<open>*sql.Rows\<close>) is the list of the rows it still holds, each one the
    outcome of its \<^verbatim>\<open>Scan\<close>;
  \<^item> an Arrow column builder is its type id and the cells appended so far;
  \<^item> a Go panic and a returned error are values of a sum type.
\<close>

subsection \<open>Arrow types\<close>

text \<open>The ids of \<^verbatim>\<open>arrow.Type\<close> that the file names or that its mapping produces.\<close>

datatype arrow_Type =
    NULL | BOOL | UINT8 | INT8 | INT16 | INT32 | INT64 | FLOAT32 | FLOAT64
  | STRING | BINARY | DATE32 | TIMESTAMP | TIME32 | SPARSE_UNION | DENSE_UNION

text \<open>
  \<^verbatim>\<open>arrow.DataType\<close>: the values the mapping returns, \<^verbatim>\<open>Uint8\<close> and the sparse union
  (which a caller's schema may hold and the allocator names), and the dense union with
  its child fields (name, type, nullable) and type codes.
\<close>

datatype DataType =
    NullType | Boolean | Uint8 | Int8 | Int16 | Int32 | Int64 | Float32 | Float64
  | String | Binary | Date32 | Time32s | Timestamp_us
  | SparseUnionOf "(string \<times> DataType \<times> bool) list" "nat list"
  | DenseUnionOf "(string \<times> DataType \<times> bool) list" "nat list"

fun ID :: "DataType \<Rightarrow> arrow_Type" where
  "ID NullType = NULL"
| "ID Boolean = BOOL"
| "ID Uint8 = UINT8"
| "ID Int8 = INT8"
| "ID Int16 = INT16"
| "ID Int32 = INT32"
| "ID Int64 = INT64"
| "ID Float32 = FLOAT32"
| "ID Float64 = FLOAT64"
| "ID String = STRING"
| "ID Binary = BINARY"
| "ID Date32 = DATE32"
| "ID Time32s = TIME32"
| "ID Timestamp_us = TIMESTAMP"
| "ID (SparseUnionOf fs cs) = SPARSE_UNION"
| "ID (DenseUnionOf fs cs) = DENSE_UNION"

text \<open>What a call can end in besides its result: a panic, or an error it returns.\<close>

datatype failure =
    Panic string              \<comment> \<open>\<^verbatim>\<open>panic(msg)\<close>\<close>
  | NilDereference            \<comment> \<open>a method called on a nil pointer\<close>
  | TypeAssertion             \<comment> \<open>\<^verbatim>\<open>fb.(*array.XBuilder)\<close> on a builder of another type\<close>
  | IndexOutOfRange           \<comment> \<open>\<^verbatim>\<open>Field(i)\<close> past the last builder\<close>
  | RowCountMismatch          \<comment> \<open>\<^verbatim>\<open>NewRecord\<close> on columns of different lengths\<close>
  | Returned string           \<comment> \<open>not a panic: an error value returned to the caller\<close>

subsection \<open>Strings\<close>

text \<open>
  A Go string is its bytes. \<^verbatim>\<open>strings.ToLower\<close> turns \<^verbatim>\<open>A\<close>..\<^verbatim>\<open>Z\<close> into
  \<^verbatim>\<open>a\<close>..\<^verbatim>\<open>z\<close> when every byte is ASCII; otherwise it maps each rune through
  the Unicode tables of the Go library, which are not part of this repository: that case
  is the parameter \<open>unicode_lower\<close>, and every theorem holds whatever it is.
\<close>

definition is_ascii :: "char \<Rightarrow> bool" where
  "is_ascii c = ((of_char c :: nat) < 128)"

definition lower_byte :: "char \<Rightarrow> char" where
  "lower_byte c =
     (if 65 \<le> (of_char c :: nat) \<and> (of_char c :: nat) \<le> 90
      then char_of ((of_char c :: nat) + 32) else c)"

definition ToLower :: "(string \<Rightarrow> string) \<Rightarrow> string \<Rightarrow> string" where
  "ToLower unicode_lower s =
     (if list_all is_ascii s then map lower_byte s else unicode_lower s)"

definition HasPrefix :: "string \<Rightarrow> string \<Rightarrow> bool" where
  "HasPrefix s p = (take (length p) s = p)"

subsection \<open>The type mapping\<close>

definition getArrowTypeFromString :: "(string \<Rightarrow> string) \<Rightarrow> string \<Rightarrow> failure + DataType" where
  "getArrowTypeFromString unicode_lower dbtype0 =
     (let dbtype = ToLower unicode_lower dbtype0 in
      if dbtype = [] then Inr NullType
      else if HasPrefix dbtype ''varchar'' then Inr String
      else if dbtype = ''tinyint'' then Inr Int8
      else if dbtype = ''smallint'' then Inr Int16
      else if dbtype = ''integer'' \<or> dbtype = ''int'' \<or> dbtype = ''int32'' then Inr Int32
      else if dbtype = ''bigint'' \<or> dbtype = ''int64'' then Inr Int64
      else if dbtype = ''float'' then Inr Float32
      else if dbtype = ''double'' then Inr Float64
      else if dbtype = ''blob'' then Inr Binary
      else if dbtype = ''text'' \<or> dbtype = ''varchar'' \<or> dbtype = ''string'' then Inr String
      else if dbtype = ''date'' then Inr Date32
      else if dbtype = ''time'' then Inr Time32s
      else if dbtype = ''timestamp'' then Inr Timestamp_us
      else if dbtype = ''boolean'' then Inr Boolean
      else Inl (Panic (''invalid DuckDB type: '' @ dbtype)))"

definition duckDBDenseUnion :: DataType where
  "duckDBDenseUnion =
     DenseUnionOf [(''int'', Int64, True), (''float'', Float64, True), (''string'', String, True)]
       [0, 1, 2]"

text \<open>\<^verbatim>\<open>reflect.Kind\<close>, all of it.\<close>

datatype reflect_Kind =
    reflect_Invalid | reflect_Bool
  | reflect_Int | reflect_Int8 | reflect_Int16 | reflect_Int32 | reflect_Int64
  | reflect_Uint | reflect_Uint8 | reflect_Uint16 | reflect_Uint32 | reflect_Uint64
  | reflect_Uintptr | reflect_Float32 | reflect_Float64
  | reflect_Complex64 | reflect_Complex128
  | reflect_Array | reflect_Chan | reflect_Func | reflect_Interface | reflect_Map
  | reflect_Pointer | reflect_Slice | reflect_String | reflect_Struct
  | reflect_UnsafePointer

text \<open>
  \<^verbatim>\<open>sql.ColumnType\<close>, as far as the file reads it: the name, the declared type name,
  the nullability (the \<^verbatim>\<open>ok\<close> flag of \<^verbatim>\<open>Nullable()\<close> is dropped by the code) and the
  kind of the scan type, \<open>None\<close> when \<^verbatim>\<open>ScanType()\<close> is nil.
\<close>

record ColumnType =
  col_Name :: string
  col_DatabaseTypeName :: string
  col_Nullable :: bool
  col_ScanType :: "reflect_Kind option"

definition getArrowType :: "(string \<Rightarrow> string) \<Rightarrow> ColumnType \<Rightarrow> failure + DataType" where
  "getArrowType unicode_lower c =
     (let dbtype = ToLower unicode_lower (col_DatabaseTypeName c) in
      if dbtype = [] then
        (case col_ScanType c of
           None \<Rightarrow> Inr duckDBDenseUnion
         | Some k \<Rightarrow>
             if k = reflect_Int8 \<or> k = reflect_Uint8 then Inr Int8
             else if k = reflect_Int16 \<or> k = reflect_Uint16 then Inr Int16
             else if k = reflect_Int32 \<or> k = reflect_Uint32 then Inr Int32
             else if k = reflect_Int \<or> k = reflect_Int64 \<or> k = reflect_Uint64 then Inr Int64
             else if k = reflect_Float32 then Inr Float32
             else if k = reflect_Float64 then Inr Float64
             else if k = reflect_String then Inr String
             else if k = reflect_Bool then Inr Boolean
             else getArrowTypeFromString unicode_lower dbtype)
      else getArrowTypeFromString unicode_lower dbtype)"

subsection \<open>Scan destinations\<close>

type_synonym byte = "8 word"
type_synonym float64 = "64 word"  \<comment> \<open>the IEEE 754 bits of a \<^verbatim>\<open>float64\<close>\<close>
type_synonym float32 = "32 word"  \<comment> \<open>the IEEE 754 bits of a \<^verbatim>\<open>float32\<close>\<close>

text \<open>What an \<^verbatim>\<open>interface{}\<close> slot can hold after a scan.\<close>

datatype any = AnyNil | AnyInt "64 word" | AnyFloat float64 | AnyString string
  | AnyBytes "byte list" | AnyBool bool

text \<open>
  An element of \<^verbatim>\<open>rowdest\<close>: the pointer the constructor stored, with the value it
  points to. \<open>NoDest\<close> is the nil interface of an element the constructor never
  assigned. A \<^verbatim>\<open>*[]byte\<close> points to a slice that is nil (\<open>None\<close>) or not;
  \<open>P_bytes_nil\<close> is the nil \<^verbatim>\<open>*[]byte\<close> itself, which \<^verbatim>\<open>Next\<close> tests for.
\<close>

datatype dest =
    NoDest
  | P_interface any
  | P_uint8 byte
  | P_NullByte byte bool          \<comment> \<open>\<^verbatim>\<open>sql.NullByte{Byte, Valid}\<close>\<close>
  | P_int32 "32 word"
  | P_NullInt32 "32 word" bool    \<comment> \<open>\<^verbatim>\<open>sql.NullInt32{Int32, Valid}\<close>\<close>
  | P_int64 "64 word"
  | P_NullInt64 "64 word" bool    \<comment> \<open>\<^verbatim>\<open>sql.NullInt64{Int64, Valid}\<close>\<close>
  | P_float64 float64
  | P_NullFloat64 float64 bool    \<comment> \<open>\<^verbatim>\<open>sql.NullFloat64{Float64, Valid}\<close>\<close>
  | P_bytes_nil
  | P_bytes "byte list option"
  | P_string string
  | P_NullString string bool      \<comment> \<open>\<^verbatim>\<open>sql.NullString{String, Valid}\<close>\<close>

text \<open>
  The \<^verbatim>\<open>switch\<close> on the field's type id that both constructors run for every field
  (the two copies differ only in the order of \<^verbatim>\<open>FLOAT32\<close> and \<^verbatim>\<open>FLOAT64\<close> in one
  case label). A type id with no case leaves the element as \<^verbatim>\<open>make\<close> created it: nil.
\<close>

definition newRowDest :: "arrow_Type \<Rightarrow> bool \<Rightarrow> dest" where
  "newRowDest tid nullable =
     (if tid = DENSE_UNION \<or> tid = SPARSE_UNION then P_interface AnyNil
      else if tid = UINT8 \<or> tid = INT8 then
        (if nullable then P_NullByte 0 False else P_uint8 0)
      else if tid = INT32 then
        (if nullable then P_NullInt32 0 False else P_int32 0)
      else if tid = INT64 then
        (if nullable then P_NullInt64 0 False else P_int64 0)
      else if tid = FLOAT32 \<or> tid = FLOAT64 then
        (if nullable then P_NullFloat64 0 False else P_float64 0)
      else if tid = BINARY then P_bytes None
      else if tid = STRING then
        (if nullable then P_NullString [] False else P_string [])
      else NoDest)"

subsection \<open>Schema, builder, record, cursor\<close>

record Field =
  Name :: string
  Type :: DataType
  Nullable :: bool
  Metadata :: "(string \<times> string) list"

text \<open>A value in a column. Floats are kept as their bits.\<close>

datatype cell = Null | U8 byte | I32 "32 word" | I64 "64 word"
  | F32 float32 | F64 float64 | Bin "byte list" | Str string

text \<open>
  A column builder of \<^verbatim>\<open>array.RecordBuilder\<close>: the type id that chose its Go type
  (\<^verbatim>\<open>*array.Uint8Builder\<close> for \<^verbatim>\<open>UINT8\<close>, \<^verbatim>\<open>*array.Int8Builder\<close> for \<^verbatim>\<open>INT8\<close>, ...)
  and the cells appended since the last \<^verbatim>\<open>NewRecord\<close>.
\<close>

type_synonym builder = "arrow_Type \<times> cell list"

definition NewRecordBuilder :: "Field list \<Rightarrow> builder list" where
  "NewRecordBuilder sch = map (\<lambda>f. (ID (Type f), [])) sch"

record Record =
  Columns :: "cell list list"
  NumRows :: nat

text \<open>
  \<^verbatim>\<open>RecordBuilder.NewRecord\<close> of arrow-go: it takes the array of every builder in turn,
  which empties the builder, and panics when a column's length differs from the one
  before it; the record has the length of the last column (0 without columns).
\<close>

fun new_arrays :: "nat \<Rightarrow> nat \<Rightarrow> cell list list \<Rightarrow> nat option" where
  "new_arrays i rows [] = Some rows"
| "new_arrays i rows (col # cols) =
     (if 0 < i \<and> length col \<noteq> rows then None
      else new_arrays (Suc i) (length col) cols)"

definition NewRecord :: "builder list \<Rightarrow> failure + (Record \<times> builder list)" where
  "NewRecord bs =
     (case new_arrays 0 0 (map snd bs) of
        None \<Rightarrow> Inl RowCountMismatch
      | Some n \<Rightarrow> Inr (\<lparr>Columns = map snd bs, NumRows = n\<rparr>, map (\<lambda>b. (fst b, [])) bs))"

text \<open>
  The cursor. \<open>column_types\<close> is what \<^verbatim>\<open>ColumnTypes()\<close> returns. \<open>pending\<close> are the
  rows not yet fetched: \<^verbatim>\<open>rows.Next()\<close> is true while there is one, and the
  \<^verbatim>\<open>Scan\<close> that follows either fails with a message or stores the row through the
  pointers of \<^verbatim>\<open>rowdest\<close>, given here as the destinations after the store.
\<close>

datatype scan = ScanFails string | ScanFills "dest list"

record Rows =
  column_types :: "string + ColumnType list"
  pending :: "scan list"

text \<open>The error \<^verbatim>\<open>Next\<close> records.\<close>

datatype error =
    ScanError string                  \<comment> \<open>the error \<^verbatim>\<open>Scan\<close> returned\<close>
  | StatusUnknown string "Field list" \<comment> \<open>a status of code Unknown: its message, and as
      detail the string of the schema, kept as the schema\<close>

text \<open>What the reader calls on its collaborators, in order.\<close>

datatype event = rows_Close | bldr_Release | record_Release

subsection \<open>The reader\<close>

definition maxBatchSize :: nat where
  "maxBatchSize = 1024"

record SqlBatchReader =
  refCount :: "64 word"
  schema :: "Field list option"
  rows :: "Rows option"
  record' :: "Record option"
  bldr :: "builder list option"
  err :: "error option"
  rowdest :: "dest list option"
  events :: "event list"  \<comment> \<open>not a field of the struct: the calls made so far\<close>

text \<open>
  \<^verbatim>\<open>NewDuckDBBatchReaderWithSchema\<close>, for a cursor that is not nil. It never returns an
  error. (The allocator \<^verbatim>\<open>mem\<close> only feeds the builder and is left out.)
\<close>

definition NewDuckDBBatchReaderWithSchema :: "Field list \<Rightarrow> Rows \<Rightarrow> SqlBatchReader" where
  "NewDuckDBBatchReaderWithSchema sch rws =
     \<lparr>refCount = 1,
      schema = Some sch,
      rows = Some rws,
      record' = None,
      bldr = Some (NewRecordBuilder sch),
      err = None,
      rowdest = Some (map (\<lambda>f. newRowDest (ID (Type f)) (Nullable f)) sch),
      events = []\<rparr>"

text \<open>\<^verbatim>\<open>strconv.Itoa\<close> on an index.\<close>

function Itoa :: "nat \<Rightarrow> string" where
  "Itoa n = (if n < 10 then [char_of (48 + n)] else Itoa (n div 10) @ [char_of (48 + n mod 10)])"
  by pat_completeness auto
termination
  by (relation "measure id") auto

declare Itoa.simps [simp del]

text \<open>
  One turn of the loop of \<^verbatim>\<open>NewDuckDBBatchReader\<close>: the field of column \<open>i\<close>.
  \<^verbatim>\<open>getColumnMetadata\<close> and \<^verbatim>\<open>getSqlTypeFromTypeName\<close> are not in the source file:
  their composition on the declared type name is the parameter \<open>column_metadata\<close>,
  which may panic.
\<close>

definition newField ::
  "(string \<Rightarrow> string) \<Rightarrow> (string \<Rightarrow> failure + (string \<times> string) list) \<Rightarrow> nat \<Rightarrow> ColumnType
     \<Rightarrow> failure + Field" where
  "newField unicode_lower column_metadata i c =
     (let nm = (if col_Name c = ''?'' then col_Name c @ '':'' @ Itoa i else col_Name c) in
      case getArrowType unicode_lower c of
        Inl e \<Rightarrow> Inl e
      | Inr t \<Rightarrow>
          (case column_metadata (col_DatabaseTypeName c) of
             Inl e \<Rightarrow> Inl e
           | Inr md \<Rightarrow> Inr \<lparr>Name = nm, Type = t, Nullable = col_Nullable c, Metadata = md\<rparr>))"

fun newFields ::
  "(string \<Rightarrow> string) \<Rightarrow> (string \<Rightarrow> failure + (string \<times> string) list) \<Rightarrow> nat \<Rightarrow> ColumnType list
     \<Rightarrow> failure + Field list" where
  "newFields unicode_lower column_metadata i [] = Inr []"
| "newFields unicode_lower column_metadata i (c # cs) =
     (case newField unicode_lower column_metadata i c of
        Inl e \<Rightarrow> Inl e
      | Inr f \<Rightarrow>
          (case newFields unicode_lower column_metadata (Suc i) cs of
             Inl e \<Rightarrow> Inl e
           | Inr fs \<Rightarrow> Inr (f # fs)))"

text \<open>
  \<^verbatim>\<open>NewDuckDBBatchReader\<close>. When \<^verbatim>\<open>ColumnTypes()\<close> fails the cursor is closed and the
  error returned (the second component is the calls made on the cursor).
\<close>

definition NewDuckDBBatchReader ::
  "(string \<Rightarrow> string) \<Rightarrow> (string \<Rightarrow> failure + (string \<times> string) list) \<Rightarrow> Rows
     \<Rightarrow> (failure \<times> event list) + SqlBatchReader" where
  "NewDuckDBBatchReader unicode_lower column_metadata rws =
     (case column_types rws of
        Inl msg \<Rightarrow> Inl (Returned msg, [rows_Close])
      | Inr cols \<Rightarrow>
          (case newFields unicode_lower column_metadata 0 cols of
             Inl e \<Rightarrow> Inl (e, [])
           | Inr flds \<Rightarrow>
               Inr \<lparr>refCount = 1,
                    schema = Some flds,
                    rows = Some rws,
                    record' = None,
                    bldr = Some (NewRecordBuilder flds),
                    err = None,
                    rowdest = Some (map (\<lambda>f. newRowDest (ID (Type f)) (Nullable f)) flds),
                    events = []\<rparr>))"

definition Retain :: "SqlBatchReader \<Rightarrow> SqlBatchReader" where
  "Retain r = r\<lparr>refCount := refCount r + 1\<rparr>"

text \<open>
  \<^verbatim>\<open>Release\<close>. \<^verbatim>\<open>r.rows.Close()\<close> and \<^verbatim>\<open>r.bldr.Release()\<close> dereference their
  receiver, so on a nil one they panic.
\<close>

definition Release :: "SqlBatchReader \<Rightarrow> failure + SqlBatchReader" where
  "Release r =
     (let r1 = r\<lparr>refCount := refCount r - 1\<rparr> in
      if refCount r1 = 0 then
        (case rows r1 of
           None \<Rightarrow> Inl NilDereference
         | Some rws \<Rightarrow>
             (let r2 = r1\<lparr>events := events r1 @ [rows_Close],
                         rows := None, schema := None, rowdest := None\<rparr> in
              case bldr r2 of
                None \<Rightarrow> Inl NilDereference
              | Some b \<Rightarrow>
                  (let r3 = r2\<lparr>events := events r2 @ [bldr_Release], bldr := None\<rparr> in
                   case record' r3 of
                     None \<Rightarrow> Inr r3
                   | Some rc \<Rightarrow>
                       Inr (r3\<lparr>events := events r3 @ [record_Release], record' := None\<rparr>))))
      else Inr r1)"

definition Schema :: "SqlBatchReader \<Rightarrow> Field list option" where
  "Schema r = schema r"

definition Record :: "SqlBatchReader \<Rightarrow> Record option" where
  "Record r = record' r"


subsection \<open>Next\<close>

definition AppendNull :: "builder \<Rightarrow> builder" where
  "AppendNull fb = (fst fb, snd fb @ [Null])"

text \<open>
  \<^verbatim>\<open>fb.(*array.XBuilder).Append(v)\<close>: the type assertion holds when the builder was made
  for the type id of \<^verbatim>\<open>X\<close>, and panics otherwise.
\<close>

definition append_as :: "arrow_Type \<Rightarrow> cell \<Rightarrow> builder \<Rightarrow> failure + builder" where
  "append_as tid c fb = (if fst fb = tid then Inr (fst fb, snd fb @ [c]) else Inl TypeAssertion)"

text \<open>
  The type switch on one element of \<^verbatim>\<open>rowdest\<close>, in the order of the source. It has no
  case for a nil element nor for \<^verbatim>\<open>*interface{}\<close>, and the inner switch of the float
  cases has none for a builder that is neither \<^verbatim>\<open>Float64Builder\<close> nor
  \<^verbatim>\<open>Float32Builder\<close>: there nothing is appended. \<open>to_float32\<close> is the conversion
  \<^verbatim>\<open>float32(x)\<close>. \<^verbatim>\<open>BinaryBuilder.Append\<close> of a nil slice appends a value of length 0.
\<close>

fun append_dest :: "(float64 \<Rightarrow> float32) \<Rightarrow> dest \<Rightarrow> builder \<Rightarrow> failure + builder" where
  "append_dest to_float32 (P_uint8 v) fb = append_as UINT8 (U8 v) fb"
| "append_dest to_float32 (P_NullByte v valid) fb =
     (if \<not> valid then Inr (AppendNull fb) else append_as UINT8 (U8 v) fb)"
| "append_dest to_float32 (P_int64 v) fb = append_as INT64 (I64 v) fb"
| "append_dest to_float32 (P_NullInt64 v valid) fb =
     (if \<not> valid then Inr (AppendNull fb) else append_as INT64 (I64 v) fb)"
| "append_dest to_float32 (P_int32 v) fb = append_as INT32 (I32 v) fb"
| "append_dest to_float32 (P_NullInt32 v valid) fb =
     (if \<not> valid then Inr (AppendNull fb) else append_as INT32 (I32 v) fb)"
| "append_dest to_float32 (P_float64 v) fb =
     (if fst fb = FLOAT64 then Inr (fst fb, snd fb @ [F64 v])
      else if fst fb = FLOAT32 then Inr (fst fb, snd fb @ [F32 (to_float32 v)])
      else Inr fb)"
| "append_dest to_float32 (P_NullFloat64 v valid) fb =
     (if \<not> valid then Inr (AppendNull fb)
      else if fst fb = FLOAT64 then Inr (fst fb, snd fb @ [F64 v])
      else if fst fb = FLOAT32 then Inr (fst fb, snd fb @ [F32 (to_float32 v)])
      else Inr fb)"
| "append_dest to_float32 P_bytes_nil fb = Inr (AppendNull fb)"
| "append_dest to_float32 (P_bytes b) fb =
     append_as BINARY (Bin (case b of None \<Rightarrow> [] | Some bs \<Rightarrow> bs)) fb"
| "append_dest to_float32 (P_string v) fb = append_as STRING (Str v) fb"
| "append_dest to_float32 (P_NullString v valid) fb =
     (if \<not> valid then Inr (AppendNull fb) else append_as STRING (Str v) fb)"
| "append_dest to_float32 NoDest fb = Inr fb"
| "append_dest to_float32 (P_interface a) fb = Inr fb"

text \<open>
  \<^verbatim>\<open>for i, v := range r.rowdest\<close>: element \<open>i\<close> goes to \<^verbatim>\<open>r.bldr.Field(i)\<close>, which
  panics past the last builder; the first panic ends the loop.
\<close>

fun append_fields :: "(float64 \<Rightarrow> float32) \<Rightarrow> dest list \<Rightarrow> builder list \<Rightarrow> failure + builder list" where
  "append_fields to_float32 [] bs = Inr bs"
| "append_fields to_float32 (v # vs) [] = Inl IndexOutOfRange"
| "append_fields to_float32 (v # vs) (fb # bs) =
     (case append_dest to_float32 v fb of
        Inl e \<Rightarrow> Inl e
      | Inr fb' \<Rightarrow>
          (case append_fields to_float32 vs bs of
             Inl e \<Rightarrow> Inl e
           | Inr bs' \<Rightarrow> Inr (fb' # bs')))"

definition append_row ::
  "(float64 \<Rightarrow> float32) \<Rightarrow> dest list \<Rightarrow> builder list option \<Rightarrow> failure + builder list option" where
  "append_row to_float32 vs b =
     (case b of
        None \<Rightarrow> (if vs = [] then Inr None else Inl NilDereference)
      | Some bs \<Rightarrow>
          (case append_fields to_float32 vs bs of Inl e \<Rightarrow> Inl e | Inr bs' \<Rightarrow> Inr (Some bs')))"

text \<open>How the loop of \<^verbatim>\<open>Next\<close> ends: past its condition, with the count of rows, or by
  the \<^verbatim>\<open>return false\<close> after a failed scan.\<close>

datatype loop_end = LoopDone nat | ReturnedFalse

text \<open>
  \<^verbatim>\<open>for rows < maxBatchSize && r.rows.Next() { ... }\<close> with the rows the cursor still
  holds as an argument. On an empty cursor the condition is false whatever the count.
  \<open>detail_fails\<close> tells whether \<^verbatim>\<open>WithDetails\<close> returns an error for the schema's
  string (it is a function of the gRPC library).
\<close>

fun scan_loop ::
  "(float64 \<Rightarrow> float32) \<Rightarrow> (Field list \<Rightarrow> bool) \<Rightarrow> nat \<Rightarrow> scan list \<Rightarrow> SqlBatchReader
     \<Rightarrow> failure + (loop_end \<times> scan list \<times> SqlBatchReader)" where
  "scan_loop to_float32 detail_fails n [] r = Inr (LoopDone n, [], r)"
| "scan_loop to_float32 detail_fails n (p # ps) r =
     (if n < maxBatchSize then
        (case p of
           ScanFails msg \<Rightarrow>
             (case schema r of
                None \<Rightarrow> Inl NilDereference
              | Some sch \<Rightarrow>
                  Inr (ReturnedFalse, ps,
                       r\<lparr>err := Some (if detail_fails sch then ScanError msg
                                       else StatusUnknown msg sch)\<rparr>))
         | ScanFills vs \<Rightarrow>
             (case append_row to_float32 vs (bldr r) of
                Inl e \<Rightarrow> Inl e
              | Inr b' \<Rightarrow>
                  scan_loop to_float32 detail_fails (Suc n) ps
                    (r\<lparr>rowdest := Some vs, bldr := b'\<rparr>)))
      else Inr (LoopDone n, p # ps, r))"

definition Next ::
  "(float64 \<Rightarrow> float32) \<Rightarrow> (Field list \<Rightarrow> bool) \<Rightarrow> SqlBatchReader
     \<Rightarrow> failure + (bool \<times> SqlBatchReader)" where
  "Next to_float32 detail_fails r =
     (let r1 = (case record' r of
                  None \<Rightarrow> r
                | Some rc \<Rightarrow> r\<lparr>events := events r @ [record_Release], record' := None\<rparr>) in
      case rows r1 of
        None \<Rightarrow> Inl NilDereference
      | Some rws \<Rightarrow>
          (case scan_loop to_float32 detail_fails 0 (pending rws) r1 of
             Inl e \<Rightarrow> Inl e
           | Inr (ReturnedFalse, ps, r2) \<Rightarrow> Inr (False, r2\<lparr>rows := Some (rws\<lparr>pending := ps\<rparr>)\<rparr>)
           | Inr (LoopDone n, ps, r2) \<Rightarrow>
               (case bldr r2 of
                  None \<Rightarrow> Inl NilDereference
                | Some bs \<Rightarrow>
                    (case NewRecord bs of
                       Inl e \<Rightarrow> Inl e
                     | Inr (rc, bs') \<Rightarrow>
                         Inr (0 < n, r2\<lparr>rows := Some (rws\<lparr>pending := ps\<rparr>),
                                       record' := Some rc, bldr := Some bs'\<rparr>)))))"

subsection \<open>Callers\<close>

text \<open>\<open>k\<close> calls of \<^verbatim>\<open>Next\<close> in a row, with what each returned.\<close>

fun Nexts ::
  "(float64 \<Rightarrow> float32) \<Rightarrow> (Field list \<Rightarrow> bool) \<Rightarrow> nat \<Rightarrow> SqlBatchReader
     \<Rightarrow> failure + (bool list \<times> SqlBatchReader)" where
  "Nexts to_float32 detail_fails 0 r = Inr ([], r)"
| "Nexts to_float32 detail_fails (Suc k) r =
     (case Next to_float32 detail_fails r of
        Inl e \<Rightarrow> Inl e
      | Inr (b, r') \<Rightarrow>
          (case Nexts to_float32 detail_fails k r' of
             Inl e \<Rightarrow> Inl e
           | Inr (bs, r'') \<Rightarrow> Inr (b # bs, r'')))"

definition retains :: "nat \<Rightarrow> SqlBatchReader \<Rightarrow> SqlBatchReader" where
  "retains n r = (Retain ^^ n) r"

primrec releases :: "nat \<Rightarrow> SqlBatchReader \<Rightarrow> failure + SqlBatchReader" where
  "releases 0 r = Inr r"
| "releases (Suc k) r = (case Release r of Inl e \<Rightarrow> Inl e | Inr r' \<Rightarrow> releases k r')"

text \<open>
  Values for the parameters, for the examples. \<^verbatim>\<open>WithDetails\<close> marshals the string of
  the schema into a protobuf string value, which succeeds on valid UTF-8 and fails
  otherwise; the string holds the field names as they are. \<open>details_attach\<close> is the outcome
  for a schema whose string is valid UTF-8: no failure. \<open>not_utf8\<close> says that it fails
  when a field name holds a byte that no UTF-8 text holds (C0, C1, F5 to FF), as it then
  does; it is used on names of ASCII letters and on a name that is the byte FF.
  \<open>no_metadata\<close> is a column metadata function that returns no metadata.
\<close>

definition details_attach :: "Field list \<Rightarrow> bool" where
  "details_attach sch = False"


definition no_metadata :: "string \<Rightarrow> failure + (string \<times> string) list" where
  "no_metadata n = Inr []"

subsection \<open>Notions used to state the properties\<close>

text \<open>The mapping table of the specification (section 4.1).\<close>

definition mapping_table :: "(string \<times> DataType) list" where
  "mapping_table =
     [(''tinyint'', Int8), (''smallint'', Int16),
      (''integer'', Int32), (''int'', Int32), (''int32'', Int32),
      (''bigint'', Int64), (''int64'', Int64),
      (''float'', Float32), (''double'', Float64), (''blob'', Binary),
      (''text'', String), (''varchar'', String), (''string'', String),
      (''date'', Date32), (''time'', Time32s), (''timestamp'', Timestamp_us),
      (''boolean'', Boolean)]"

text \<open>The native kinds that the switch of \<^verbatim>\<open>getArrowType\<close> lists, with their types.\<close>

definition enumerated :: "reflect_Kind \<Rightarrow> DataType option" where
  "enumerated k =
     (if k = reflect_Int8 \<or> k = reflect_Uint8 then Some Int8
      else if k = reflect_Int16 \<or> k = reflect_Uint16 then Some Int16
      else if k = reflect_Int32 \<or> k = reflect_Uint32 then Some Int32
      else if k = reflect_Int \<or> k = reflect_Int64 \<or> k = reflect_Uint64 then Some Int64
      else if k = reflect_Float32 then Some Float32
      else if k = reflect_Float64 then Some Float64
      else if k = reflect_String then Some String
      else if k = reflect_Bool then Some Boolean
      else None)"

text \<open>The kinds that are neither an integer, a float, a string nor a boolean.\<close>

definition other_kind :: "reflect_Kind \<Rightarrow> bool" where
  "other_kind k =
     (k = reflect_Invalid \<or> k = reflect_Complex64 \<or> k = reflect_Complex128
      \<or> k = reflect_Array \<or> k = reflect_Chan \<or> k = reflect_Func \<or> k = reflect_Interface
      \<or> k = reflect_Map \<or> k = reflect_Pointer \<or> k = reflect_Slice \<or> k = reflect_Struct
      \<or> k = reflect_UnsafePointer)"

text \<open>
  \<open>appendable tid v\<close>: the type switch of \<^verbatim>\<open>Next\<close> appends the row element \<open>v\<close> to a
  builder of type id \<open>tid\<close> (one cell, no panic); \<open>cell_of\<close> is the cell it appends.
  A row is \<open>row_ok\<close> for the builders' type ids when its scan succeeds and every element is
  appendable to its builder; \<open>row_cells\<close> are the cells of such a row.
\<close>

fun appendable :: "arrow_Type \<Rightarrow> dest \<Rightarrow> bool" where
  "appendable tid (P_uint8 v) = (tid = UINT8)"
| "appendable tid (P_NullByte v valid) = (if valid then tid = UINT8 else True)"
| "appendable tid (P_int64 v) = (tid = INT64)"
| "appendable tid (P_NullInt64 v valid) = (if valid then tid = INT64 else True)"
| "appendable tid (P_int32 v) = (tid = INT32)"
| "appendable tid (P_NullInt32 v valid) = (if valid then tid = INT32 else True)"
| "appendable tid (P_float64 v) = (tid = FLOAT64 \<or> tid = FLOAT32)"
| "appendable tid (P_NullFloat64 v valid) = (if valid then tid = FLOAT64 \<or> tid = FLOAT32 else True)"
| "appendable tid P_bytes_nil = True"
| "appendable tid (P_bytes b) = (tid = BINARY)"
| "appendable tid (P_string v) = (tid = STRING)"
| "appendable tid (P_NullString v valid) = (if valid then tid = STRING else True)"
| "appendable tid NoDest = False"
| "appendable tid (P_interface a) = False"

fun cell_of :: "(float64 \<Rightarrow> float32) \<Rightarrow> arrow_Type \<Rightarrow> dest \<Rightarrow> cell" where
  "cell_of to_float32 tid (P_uint8 v) = U8 v"
| "cell_of to_float32 tid (P_NullByte v valid) = (if valid then U8 v else Null)"
| "cell_of to_float32 tid (P_int64 v) = I64 v"
| "cell_of to_float32 tid (P_NullInt64 v valid) = (if valid then I64 v else Null)"
| "cell_of to_float32 tid (P_int32 v) = I32 v"
| "cell_of to_float32 tid (P_NullInt32 v valid) = (if valid then I32 v else Null)"
| "cell_of to_float32 tid (P_float64 v) = (if tid = FLOAT32 then F32 (to_float32 v) else F64 v)"
| "cell_of to_float32 tid (P_NullFloat64 v valid) =
     (if valid then (if tid = FLOAT32 then F32 (to_float32 v) else F64 v) else Null)"
| "cell_of to_float32 tid P_bytes_nil = Null"
| "cell_of to_float32 tid (P_bytes b) = Bin (case b of None \<Rightarrow> [] | Some bs \<Rightarrow> bs)"
| "cell_of to_float32 tid (P_string v) = Str v"
| "cell_of to_float32 tid (P_NullString v valid) = (if valid then Str v else Null)"
| "cell_of to_float32 tid NoDest = Null"
| "cell_of to_float32 tid (P_interface a) = Null"

fun row_ok :: "arrow_Type list \<Rightarrow> scan \<Rightarrow> bool" where
  "row_ok tids (ScanFills vs) = list_all2 appendable tids vs"
| "row_ok tids (ScanFails msg) = False"

fun row_cells :: "(float64 \<Rightarrow> float32) \<Rightarrow> arrow_Type list \<Rightarrow> scan \<Rightarrow> cell list" where
  "row_cells to_float32 tids (ScanFills vs) = map2 (cell_of to_float32) tids vs"
| "row_cells to_float32 tids (ScanFails msg) = []"

text \<open>One cell added to every column, and rows of cells added in turn.\<close>

definition add_cells :: "cell list \<Rightarrow> builder list \<Rightarrow> builder list" where
  "add_cells cs bs = map2 (\<lambda>fb c. (fst fb, snd fb @ [c])) bs cs"

fun add_rows :: "cell list list \<Rightarrow> builder list \<Rightarrow> builder list" where
  "add_rows [] bs = bs"
| "add_rows (cs # css) bs = add_rows css (add_cells cs bs)"

text \<open>The fields that the loop of \<^verbatim>\<open>Next\<close> leaves alone on rows that are \<open>row_ok\<close>.\<close>

definition unchanged :: "SqlBatchReader \<Rightarrow> SqlBatchReader \<Rightarrow> bool" where
  "unchanged r r' =
     (refCount r' = refCount r \<and> schema r' = schema r \<and> rows r' = rows r \<and>
      record' r' = record' r \<and> err r' = err r \<and> events r' = events r)"

text \<open>The builders of a \<^verbatim>\<open>RecordBuilder\<close> that holds no row.\<close>

definition empty_builder :: "arrow_Type list \<Rightarrow> builder list" where
  "empty_builder tids = map (\<lambda>t. (t, [])) tids"

text \<open>No column of the builder, if there is one, holds more than \<open>m\<close> cells.\<close>

definition within :: "nat \<Rightarrow> builder list option \<Rightarrow> bool" where
  "within m b = (case b of None \<Rightarrow> True | Some bs \<Rightarrow> list_all (\<lambda>fb. length (snd fb) \<le> m) bs)"




subsection \<open>Example values\<close>

text \<open>A schema with one nullable int32 field, a cursor over given rows, and the reader that
  \<^verbatim>\<open>NewDuckDBBatchReaderWithSchema\<close> makes of them.\<close>

definition example_schema :: "Field list" where
  "example_schema = [\<lparr>Name = ''n'', Type = Int32, Nullable = True, Metadata = []\<rparr>]"

definition example_rows :: "scan list \<Rightarrow> Rows" where
  "example_rows ps =
     \<lparr>column_types = Inr [\<lparr>col_Name = ''n'', col_DatabaseTypeName = ''integer'',
                             col_Nullable = True, col_ScanType = None\<rparr>],
      pending = ps\<rparr>"

definition example_reader :: "scan list \<Rightarrow> SqlBatchReader" where
  "example_reader ps = NewDuckDBBatchReaderWithSchema example_schema (example_rows ps)"

section \<open>Lemmas\<close>

subsection \<open>Appending rows\<close>

lemma append_dest_appendable:
  "appendable (fst fb) v \<Longrightarrow>
   append_dest f32 v fb = Inr (fst fb, snd fb @ [cell_of f32 (fst fb) v])"
  by (cases v) (auto simp: append_as_def AppendNull_def)

lemma append_fields_ok:
  "list_all2 appendable (map fst bs) vs \<Longrightarrow>
   append_fields f32 vs bs = Inr (add_cells (map2 (cell_of f32) (map fst bs) vs) bs)"
proof (induction bs arbitrary: vs)
  case Nil
  then show ?case by (simp add: add_cells_def)
next
  case (Cons fb bs)
  then obtain v vs' where vs: "vs = v # vs'" and v: "appendable (fst fb) v"
    and rest: "list_all2 appendable (map fst bs) vs'"
    by (cases vs) auto
  show ?case
    using Cons.IH [OF rest] append_dest_appendable [OF v, of f32]
    by (simp add: vs add_cells_def)
qed

lemma fst_add_cells: "length cs = length bs \<Longrightarrow> map fst (add_cells cs bs) = map fst bs"
  unfolding add_cells_def
  by (induction bs arbitrary: cs) (auto simp: length_Suc_conv)

lemma scan_loop_ok:
  assumes "bldr r = Some bs"
    and "list_all (row_ok (map fst bs)) (take (maxBatchSize - n) ps)"
  shows "\<exists>r'. scan_loop f32 df n ps r =
            Inr (LoopDone (n + min (length ps) (maxBatchSize - n)), drop (maxBatchSize - n) ps, r')
          \<and> bldr r' = Some (add_rows (map (row_cells f32 (map fst bs)) (take (maxBatchSize - n) ps)) bs)
          \<and> unchanged r r'"
  using assms
proof (induction ps arbitrary: n r bs)
  case Nil
  then show ?case by (simp add: unchanged_def)
next
  case (Cons p ps)
  show ?case
  proof (cases "n < maxBatchSize")
    case False
    then show ?thesis using Cons.prems by (simp add: unchanged_def)
  next
    case True
    then have sub: "maxBatchSize - n = Suc (maxBatchSize - Suc n)"
      by simp
    have tk: "take (maxBatchSize - n) (p # ps) = p # take (maxBatchSize - Suc n) ps"
      by (simp only: sub take_Suc_Cons)
    have dr: "drop (maxBatchSize - n) (p # ps) = drop (maxBatchSize - Suc n) ps"
      by (simp only: sub drop_Suc_Cons)
    from Cons.prems(2) tk obtain vs where p: "p = ScanFills vs"
      and vs: "list_all2 appendable (map fst bs) vs"
      and rest: "list_all (row_ok (map fst bs)) (take (maxBatchSize - Suc n) ps)"
      by (cases p) auto
    let ?cs = "map2 (cell_of f32) (map fst bs) vs"
    let ?bs = "add_cells ?cs bs"
    let ?r = "r\<lparr>rowdest := Some vs, bldr := Some ?bs\<rparr>"
    have len: "length ?cs = length bs"
      using list_all2_lengthD [OF vs] by simp
    have fst: "map fst ?bs = map fst bs"
      by (rule fst_add_cells [OF len])
    have ar: "append_row f32 vs (bldr r) = Inr (Some ?bs)"
      using append_fields_ok [OF vs, of f32] Cons.prems(1) by (simp add: append_row_def)
    have b: "bldr ?r = Some ?bs" by simp
    from Cons.IH [OF b, of "Suc n"] rest fst
    obtain r' where
      1: "scan_loop f32 df (Suc n) ps ?r =
            Inr (LoopDone (Suc n + min (length ps) (maxBatchSize - Suc n)),
                 drop (maxBatchSize - Suc n) ps, r')"
      and 2: "bldr r' = Some (add_rows (map (row_cells f32 (map fst bs)) (take (maxBatchSize - Suc n) ps)) ?bs)"
      and 3: "unchanged ?r r'"
      by auto
    have cnt: "Suc n + min (length ps) (maxBatchSize - Suc n)
                 = n + min (length (p # ps)) (maxBatchSize - n)"
      using True by auto
    have step: "scan_loop f32 df n (p # ps) r = scan_loop f32 df (Suc n) ps ?r"
      using True ar by (simp add: p)
    have rows_eq: "map (row_cells f32 (map fst bs)) (take (maxBatchSize - n) (p # ps))
                     = ?cs # map (row_cells f32 (map fst bs)) (take (maxBatchSize - Suc n) ps)"
      by (simp only: tk) (simp add: p)
    have "scan_loop f32 df n (p # ps) r =
            Inr (LoopDone (n + min (length (p # ps)) (maxBatchSize - n)),
                 drop (maxBatchSize - n) (p # ps), r')"
      by (simp only: step 1 cnt dr)
    moreover have "bldr r' =
        Some (add_rows (map (row_cells f32 (map fst bs)) (take (maxBatchSize - n) (p # ps))) bs)"
      by (simp only: rows_eq add_rows.simps 2)
    moreover have "unchanged r r'"
      using 3 by (simp add: unchanged_def)
    ultimately show ?thesis by blast
  qed
qed



lemma length_add_cells: "length cs = length bs \<Longrightarrow> length (add_cells cs bs) = length bs"
  by (simp add: add_cells_def)

lemma nth_add_cells:
  "length cs = length bs \<Longrightarrow> i < length bs \<Longrightarrow>
   add_cells cs bs ! i = (fst (bs ! i), snd (bs ! i) @ [cs ! i])"
  by (simp add: add_cells_def)

lemma add_rows_props:
  "list_all (\<lambda>cs. length cs = length bs) css \<Longrightarrow>
   length (add_rows css bs) = length bs \<and>
   map fst (add_rows css bs) = map fst bs \<and>
   (\<forall>i < length bs. snd (add_rows css bs ! i) = snd (bs ! i) @ map (\<lambda>cs. cs ! i) css)"
proof (induction css arbitrary: bs)
  case Nil
  then show ?case by simp
next
  case (Cons cs css)
  then have len: "length cs = length bs"
    and rest: "list_all (\<lambda>cs'. length cs' = length (add_cells cs bs)) css"
    by (simp_all add: length_add_cells)
  from Cons.IH [OF rest] len show ?case
    by (simp add: length_add_cells fst_add_cells nth_add_cells)
qed

lemma new_arrays_same:
  "list_all (\<lambda>c. length c = m) cols \<Longrightarrow> new_arrays (Suc i) m cols = Some m"
  by (induction cols arbitrary: i) simp_all

lemma new_arrays_start:
  "cols \<noteq> [] \<Longrightarrow> list_all (\<lambda>c. length c = m) cols \<Longrightarrow> new_arrays 0 0 cols = Some m"
  by (cases cols) (simp_all add: new_arrays_same)

lemma length_row_cells:
  "row_ok tids p \<Longrightarrow> length (row_cells f32 tids p) = length tids"
  by (cases p) (auto dest: list_all2_lengthD)

lemma columns_after:
  fixes f32 :: "float64 \<Rightarrow> float32"
  assumes ok: "list_all (row_ok tids) ps"
  defines "bs' \<equiv> add_rows (map (row_cells f32 tids) ps) (empty_builder tids)"
  shows "length bs' = length tids"
    and "map fst bs' = tids"
    and "list_all (\<lambda>c. length c = length ps) (map snd bs')"
    and "i < length tids \<Longrightarrow> k < length ps \<Longrightarrow> map snd bs' ! i ! k = row_cells f32 tids (ps ! k) ! i"
proof -
  have lens: "list_all (\<lambda>cs. length cs = length (empty_builder tids)) (map (row_cells f32 tids) ps)"
    using ok by (induction ps) (simp_all add: length_row_cells empty_builder_def)
  note P = add_rows_props [OF lens, folded bs'_def]
  show 1: "length bs' = length tids" using P by (simp add: empty_builder_def)
  show "map fst bs' = tids" using P by (simp add: empty_builder_def comp_def)
  have col: "snd (bs' ! j) = map (\<lambda>cs. cs ! j) (map (row_cells f32 tids) ps)" if "j < length tids" for j
    using P that by (simp add: empty_builder_def)
  show "list_all (\<lambda>c. length c = length ps) (map snd bs')"
    unfolding list_all_length using col 1 by simp
  show "map snd bs' ! i ! k = row_cells f32 tids (ps ! k) ! i" if "i < length tids" "k < length ps"
    using col [OF that(1)] that 1 by simp
qed

lemma reset_builder:
  "map fst bs = tids \<Longrightarrow> map (\<lambda>b. (fst b, [])) bs = empty_builder tids"
  by (auto simp: empty_builder_def)

lemma Next_ok:
  assumes rws: "rows r = Some rws"
    and b: "bldr r = Some (empty_builder tids)"
    and ne: "tids \<noteq> []"
    and ok: "list_all (row_ok tids) (take maxBatchSize (pending rws))"
  shows "\<exists>r' rc. Next f32 df r = Inr (0 < min (length (pending rws)) maxBatchSize, r')
           \<and> record' r' = Some rc
           \<and> NumRows rc = min (length (pending rws)) maxBatchSize
           \<and> length (Columns rc) = length tids
           \<and> list_all (\<lambda>c. length c = NumRows rc) (Columns rc)
           \<and> Columns rc = map snd (add_rows (map (row_cells f32 tids) (take maxBatchSize (pending rws)))
                                     (empty_builder tids))
           \<and> bldr r' = Some (empty_builder tids)
           \<and> rows r' = Some (rws\<lparr>pending := drop maxBatchSize (pending rws)\<rparr>)
           \<and> schema r' = schema r \<and> err r' = err r \<and> refCount r' = refCount r"
proof -
  let ?r1 = "case record' r of None \<Rightarrow> r
             | Some rc \<Rightarrow> r\<lparr>events := events r @ [record_Release], record' := None\<rparr>"
  let ?ps = "take maxBatchSize (pending rws)"
  let ?bs = "add_rows (map (row_cells f32 tids) ?ps) (empty_builder tids)"
  have r1: "rows ?r1 = Some rws" "bldr ?r1 = Some (empty_builder tids)"
    "schema ?r1 = schema r" "err ?r1 = err r" "refCount ?r1 = refCount r"
    using rws b by (auto split: option.splits)
  have tids: "map fst (empty_builder tids) = tids"
    by (simp add: empty_builder_def comp_def)
  from scan_loop_ok [OF r1(2), of 0 "pending rws" f32 df] ok tids
  obtain r2 where
    loop: "scan_loop f32 df 0 (pending rws) ?r1 =
             Inr (LoopDone (min (length (pending rws)) maxBatchSize), drop maxBatchSize (pending rws), r2)"
    and b2: "bldr r2 = Some ?bs"
    and un: "unchanged ?r1 r2"
    by auto
  have len: "length ?ps = min (length (pending rws)) maxBatchSize"
    by simp
  note C = columns_after [OF ok, where ?f32.0 = f32]
  have "map snd ?bs \<noteq> []" using C(1) ne by auto
  from new_arrays_start [OF this C(3)]
  have nr: "NewRecord ?bs = Inr (\<lparr>Columns = map snd ?bs, NumRows = length ?ps\<rparr>, empty_builder tids)"
    by (simp add: NewRecord_def reset_builder [OF C(2)])
  have cols: "length (map snd ?bs) = length tids"
    "list_all (\<lambda>c. length c = length ?ps) (map snd ?bs)"
    using C(1) C(3) by simp_all
  show ?thesis
    using loop b2 un nr r1 len cols
    by (simp add: Next_def Let_def unchanged_def del: length_take length_map)
qed


subsection \<open>The type mapping\<close>

lemma is_ascii_lower_byte: "is_ascii (lower_byte c) = is_ascii c"
  by (auto simp: is_ascii_def lower_byte_def)

lemma list_all_ascii_lower: "list_all is_ascii (map lower_byte s) = list_all is_ascii s"
  by (induction s) (simp_all add: is_ascii_lower_byte)

lemma ToLower_of_lowered:
  "map lower_byte s = n \<Longrightarrow> list_all is_ascii n \<Longrightarrow> ToLower u s = n"
  using list_all_ascii_lower [of s] by (simp add: ToLower_def)

lemma ToLower_Nil: "ToLower u [] = []"
  by (simp add: ToLower_def)

lemma table_ascii: "(n, t) \<in> set mapping_table \<Longrightarrow> list_all is_ascii n"
  by (auto simp: mapping_table_def is_ascii_def)

lemma table_nonempty: "(n, t) \<in> set mapping_table \<Longrightarrow> n \<noteq> []"
  by (auto simp: mapping_table_def)

lemma from_lowered:
  "(n, t) \<in> set mapping_table \<Longrightarrow> ToLower u s = n \<Longrightarrow> getArrowTypeFromString u s = Inr t"
  by (auto simp: mapping_table_def getArrowTypeFromString_def HasPrefix_def)

lemma table_lower: "(n, t) \<in> set mapping_table \<Longrightarrow> map lower_byte n = n"
  by (auto simp: mapping_table_def lower_byte_def)

lemma getArrowType_nonempty:
  "ToLower u (col_DatabaseTypeName c) = d \<Longrightarrow> d \<noteq> [] \<Longrightarrow>
   getArrowType u c = getArrowTypeFromString u d"
  by (simp add: getArrowType_def)

lemma varchar_prefix:
  "ToLower u s = d \<Longrightarrow> HasPrefix d ''varchar'' \<Longrightarrow> getArrowTypeFromString u s = Inr String"
  by (auto simp: getArrowTypeFromString_def HasPrefix_def)

lemma newFields_fail:
  "c \<in> set cols \<Longrightarrow> getArrowType u c = Inl e \<Longrightarrow> \<exists>e'. newFields u md i cols = Inl e'"
proof (induction cols arbitrary: i)
  case Nil
  then show ?case by simp
next
  case (Cons a cols)
  show ?case
  proof (cases "newField u md i a")
    case (Inl x)
    then show ?thesis by simp
  next
    case (Inr f)
    then have "getArrowType u a \<noteq> Inl e"
      by (auto simp: newField_def split: sum.splits)
    with Cons.prems have "c \<in> set cols" by auto
    from Cons.IH [OF this Cons.prems(2), of "Suc i"] Inr show ?thesis by auto
  qed
qed

lemma unsupported_panics:
  assumes "ToLower u s = d" "d \<noteq> []" "\<not> HasPrefix d ''varchar''" "d \<notin> fst ` set mapping_table"
  shows "getArrowTypeFromString u s = Inl (Panic (''invalid DuckDB type: '' @ d))"
  using assms by (simp add: mapping_table_def getArrowTypeFromString_def)

subsection \<open>Reference counting\<close>

lemma retains_fields:
  "retains n r = r\<lparr>refCount := refCount r + of_nat n\<rparr>"
  by (induction n) (simp_all add: retains_def Retain_def algebra_simps)

lemma Release_no_teardown:
  "refCount r \<noteq> 1 \<Longrightarrow> Release r = Inr (r\<lparr>refCount := refCount r - 1\<rparr>)"
  by (simp add: Release_def Let_def)

lemma releases_no_teardown:
  "(\<And>j. 0 < j \<Longrightarrow> j \<le> k \<Longrightarrow> refCount r \<noteq> of_nat j) \<Longrightarrow>
   releases k r = Inr (r\<lparr>refCount := refCount r - of_nat k\<rparr>)"
proof (induction k arbitrary: r)
  case 0
  then show ?case by simp
next
  case (Suc k)
  have ne1: "refCount r \<noteq> 1"
    using Suc.prems [of 1] by simp
  let ?r = "r\<lparr>refCount := refCount r - 1\<rparr>"
  have "refCount ?r \<noteq> of_nat j" if "0 < j" "j \<le> k" for j
  proof
    assume "refCount ?r = of_nat j"
    then have "refCount r = of_nat (Suc j)" by (simp add: algebra_simps)
    with Suc.prems [of "Suc j"] that show False by simp
  qed
  from Suc.IH [of ?r, OF this] show ?case
    by (simp add: Release_no_teardown [OF ne1] algebra_simps)
qed

lemma releases_add:
  "releases k r = Inr r' \<Longrightarrow> releases (k + m) r = releases m r'"
  by (induction k arbitrary: r) (auto split: sum.splits)

lemma Release_teardown:
  "refCount r = 1 \<Longrightarrow> rows r = Some rws \<Longrightarrow> bldr r = Some bs \<Longrightarrow>
   Release r = Inr (r\<lparr>refCount := 0, rows := None, schema := None, rowdest := None, bldr := None,
                      record' := None,
                      events := events r @ rows_Close # bldr_Release #
                        (case record' r of None \<Rightarrow> [] | Some rc \<Rightarrow> [record_Release])\<rparr>)"
  by (cases "record' r") (simp_all add: Release_def Let_def)

lemma count_differs:
  fixes N j :: nat
  assumes "N < 2 ^ 64" "0 < j" "j \<le> N"
  shows "(1 + of_nat N :: 64 word) \<noteq> of_nat j"
proof
  assume "(1 + of_nat N :: 64 word) = of_nat j"
  then have "(of_nat (Suc N) :: 64 word) = of_nat j" by simp
  then have "take_bit 64 (Suc N) = take_bit 64 j"
    by (simp only: word_of_nat_eq_iff) simp
  moreover have "take_bit 64 j = j"
    using assms by (simp add: take_bit_nat_eq_self)
  moreover have "take_bit 64 (Suc N) = (if Suc N = 2 ^ 64 then 0 else Suc N)"
    using assms(1) by (auto simp: take_bit_nat_eq_self take_bit_eq_mod)
  ultimately show False using assms by (auto split: if_splits)
qed

subsection \<open>The loop of Next on any rows\<close>

lemma list_all_take: "list_all P xs \<Longrightarrow> list_all P (take n xs)"
  by (auto simp: list_all_iff dest: in_set_takeD)

lemma list_all_drop: "list_all P xs \<Longrightarrow> list_all P (drop n xs)"
  by (auto simp: list_all_iff dest: in_set_dropD)

lemma scan_loop_consumes:
  "scan_loop f32 df n ps r = Inr (e, ps', r') \<Longrightarrow> length ps \<le> length ps' + (maxBatchSize - n)"
proof (induction ps arbitrary: n r)
  case Nil
  then show ?case by simp
next
  case (Cons p ps)
  show ?case
  proof (cases "n < maxBatchSize")
    case False
    with Cons.prems show ?thesis by simp
  next
    case True
    show ?thesis
    proof (cases p)
      case (ScanFails msg)
      with Cons.prems True show ?thesis
        by (auto split: option.splits)
    next
      case (ScanFills vs)
      with Cons.prems True obtain b' where
        "scan_loop f32 df (Suc n) ps (r\<lparr>rowdest := Some vs, bldr := b'\<rparr>) = Inr (e, ps', r')"
        by (auto split: sum.splits)
      from Cons.IH [OF this] True show ?thesis by simp
    qed
  qed
qed

lemma Next_consumes:
  assumes "Next f32 df q = Inr (b, q')" and "rows q = Some rws"
  shows "\<exists>rws'. rows q' = Some rws' \<and> length (pending rws) \<le> length (pending rws') + maxBatchSize"
proof -
  let ?q1 = "case record' q of None \<Rightarrow> q
             | Some rc \<Rightarrow> q\<lparr>events := events q @ [record_Release], record' := None\<rparr>"
  have r1: "rows ?q1 = Some rws"
    using assms(2) by (auto split: option.splits)
  from assms(1) r1 obtain e ps q2 where
    loop: "scan_loop f32 df 0 (pending rws) ?q1 = Inr (e, ps, q2)"
    and res: "rows q' = Some (rws\<lparr>pending := ps\<rparr>)"
    by (auto simp: Next_def Let_def split: sum.splits loop_end.splits option.splits prod.splits)
  from scan_loop_consumes [OF loop] res show ?thesis by simp
qed


lemma scan_loop_fails:
  assumes "bldr r = Some bs" and "schema r = Some sch"
    and "list_all (row_ok (map fst bs)) good" and "n + length good < maxBatchSize"
  shows "\<exists>r'. scan_loop f32 df n (good @ ScanFails msg # rest) r = Inr (ReturnedFalse, rest, r')
           \<and> err r' = Some (if df sch then ScanError msg else StatusUnknown msg sch)
           \<and> record' r' = record' r"
  using assms
proof (induction good arbitrary: n r bs)
  case Nil
  then show ?case by simp
next
  case (Cons p good)
  from Cons.prems(3) obtain vs where p: "p = ScanFills vs"
    and vs: "list_all2 appendable (map fst bs) vs"
    and rest: "list_all (row_ok (map fst bs)) good"
    by (cases p) auto
  let ?cs = "map2 (cell_of f32) (map fst bs) vs"
  let ?bs = "add_cells ?cs bs"
  let ?r = "r\<lparr>rowdest := Some vs, bldr := Some ?bs\<rparr>"
  have len: "length ?cs = length bs"
    using list_all2_lengthD [OF vs] by simp
  have fst: "map fst ?bs = map fst bs"
    by (rule fst_add_cells [OF len])
  have ar: "append_row f32 vs (bldr r) = Inr (Some ?bs)"
    using append_fields_ok [OF vs, of f32] Cons.prems(1) by (simp add: append_row_def)
  have n: "n < maxBatchSize" and n': "Suc n + length good < maxBatchSize"
    using Cons.prems(4) by simp_all
  have step: "scan_loop f32 df n ((p # good) @ ScanFails msg # rest) r
                = scan_loop f32 df (Suc n) (good @ ScanFails msg # rest) ?r"
    using n ar by (simp add: p)
  have b: "bldr ?r = Some ?bs" and s: "schema ?r = Some sch"
    using Cons.prems(2) by simp_all
  from Cons.IH [OF b s _ n'] rest fst
  obtain r' where
    "scan_loop f32 df (Suc n) (good @ ScanFails msg # rest) ?r = Inr (ReturnedFalse, rest, r')"
    "err r' = Some (if df sch then ScanError msg else StatusUnknown msg sch)"
    "record' r' = record' ?r"
    by auto
  then show ?case by (simp only: step) simp
qed




subsection \<open>What a call of Next adds and keeps\<close>

lemma within_mono: "within m b \<Longrightarrow> m \<le> m' \<Longrightarrow> within m' b"
  by (auto simp: within_def list_all_iff split: option.splits)

lemma append_dest_grows:
  "append_dest f v fb = Inr fb' \<Longrightarrow> length (snd fb') \<le> Suc (length (snd fb))"
  by (cases v) (auto simp: append_as_def AppendNull_def split: if_splits)

lemma append_fields_within:
  "append_fields f vs bs = Inr bs' \<Longrightarrow> list_all (\<lambda>fb. length (snd fb) \<le> m) bs \<Longrightarrow>
   list_all (\<lambda>fb. length (snd fb) \<le> Suc m) bs'"
proof (induction f vs bs arbitrary: bs' rule: append_fields.induct)
  case (1 f bs)
  then show ?case by (auto simp: list_all_iff)
next
  case (2 f v vs)
  then show ?case by simp
next
  case (3 f v vs fb bs)
  from "3.prems"(1) obtain fb' bs'' where
    a: "append_dest f v fb = Inr fb'" and b: "append_fields f vs bs = Inr bs''"
    and c: "bs' = fb' # bs''"
    by (auto split: sum.splits)
  from "3.IH" [OF a b] "3.prems"(2) have "list_all (\<lambda>fb. length (snd fb) \<le> Suc m) bs''"
    by simp
  moreover from append_dest_grows [OF a] "3.prems"(2) have "length (snd fb') \<le> Suc m"
    by simp
  ultimately show ?case by (simp add: c)
qed

lemma append_row_within:
  "append_row f vs b = Inr b' \<Longrightarrow> within m b \<Longrightarrow> within (Suc m) b'"
  by (auto simp: append_row_def within_def split: option.splits sum.splits if_splits
      dest: append_fields_within)

lemma scan_loop_frame:
  "scan_loop f df n ps r = Inr (e, ps', r') \<Longrightarrow>
   record' r' = record' r \<and> rows r' = rows r \<and> events r' = events r \<and>
   refCount r' = refCount r \<and> schema r' = schema r"
proof (induction ps arbitrary: n r)
  case Nil
  then show ?case by auto
next
  case (Cons p ps)
  show ?case
  proof (cases "n < maxBatchSize")
    case False
    with Cons.prems show ?thesis by auto
  next
    case True
    show ?thesis
    proof (cases p)
      case (ScanFails msg)
      with Cons.prems True show ?thesis
        by (auto split: option.splits)
    next
      case (ScanFills vs)
      with Cons.prems True obtain b' where
        "scan_loop f df (Suc n) ps (r\<lparr>rowdest := Some vs, bldr := b'\<rparr>) = Inr (e, ps', r')"
        by (auto split: sum.splits)
      from Cons.IH [OF this] show ?thesis by simp
    qed
  qed
qed

lemma scan_loop_within:
  "scan_loop f df n ps r = Inr (e, ps', r') \<Longrightarrow> within m (bldr r) \<Longrightarrow>
   within (m + (maxBatchSize - n)) (bldr r')"
proof (induction ps arbitrary: n r m)
  case Nil
  then show ?case by (auto intro: within_mono)
next
  case (Cons p ps)
  show ?case
  proof (cases "n < maxBatchSize")
    case False
    with Cons.prems show ?thesis by (auto intro: within_mono)
  next
    case True
    show ?thesis
    proof (cases p)
      case (ScanFails msg)
      with Cons.prems True show ?thesis
        by (auto split: option.splits intro: within_mono)
    next
      case (ScanFills vs)
      with Cons.prems True obtain b' where
        ar: "append_row f vs (bldr r) = Inr b'" and
        lp: "scan_loop f df (Suc n) ps (r\<lparr>rowdest := Some vs, bldr := b'\<rparr>) = Inr (e, ps', r')"
        by (auto split: sum.splits)
      have "within (Suc m) (bldr (r\<lparr>rowdest := Some vs, bldr := b'\<rparr>))"
        using append_row_within [OF ar Cons.prems(2)] by simp
      from Cons.IH [OF lp this] True show ?thesis
        by (simp add: Suc_diff_Suc)
    qed
  qed
qed



lemma new_arrays_bound:
  "new_arrays i k cols = Some n \<Longrightarrow> k \<le> B \<Longrightarrow> list_all (\<lambda>c. length c \<le> B) cols \<Longrightarrow> n \<le> B"
  by (induction cols arbitrary: i k) (auto split: if_splits)

lemma Next_cases:
  assumes "Next f df q = Inr (b, q')"
  obtains (scan_failed) rws ps q2 where "rows q = Some rws"
      "scan_loop f df 0 (pending rws)
         (case record' q of None \<Rightarrow> q
          | Some rc \<Rightarrow> q\<lparr>events := events q @ [record_Release], record' := None\<rparr>)
         = Inr (ReturnedFalse, ps, q2)"
      "b = False" "q' = q2\<lparr>rows := Some (rws\<lparr>pending := ps\<rparr>)\<rparr>"
  | (finalised) rws k ps q2 bs rc bs' where "rows q = Some rws"
      "scan_loop f df 0 (pending rws)
         (case record' q of None \<Rightarrow> q
          | Some rc \<Rightarrow> q\<lparr>events := events q @ [record_Release], record' := None\<rparr>)
         = Inr (LoopDone k, ps, q2)"
      "bldr q2 = Some bs" "NewRecord bs = Inr (rc, bs')" "b = (0 < k)"
      "q' = q2\<lparr>rows := Some (rws\<lparr>pending := ps\<rparr>), record' := Some rc, bldr := Some bs'\<rparr>"
proof -
  define q1 where "q1 = (case record' q of None \<Rightarrow> q
             | Some rc \<Rightarrow> q\<lparr>events := events q @ [record_Release], record' := None\<rparr>)"
  have rq: "rows q1 = rows q" by (auto simp: q1_def split: option.splits)
  from assms obtain rws where rws: "rows q1 = Some rws"
    by (cases "rows q1") (auto simp: Next_def Let_def q1_def)
  from assms rws obtain e ps q2 where
    loop: "scan_loop f df 0 (pending rws) q1 = Inr (e, ps, q2)"
    by (cases "scan_loop f df 0 (pending rws) q1") (auto simp: Next_def Let_def q1_def)
  show thesis
  proof (cases e)
    case ReturnedFalse
    with assms rws loop have "b = False" "q' = q2\<lparr>rows := Some (rws\<lparr>pending := ps\<rparr>)\<rparr>"
      unfolding Next_def Let_def q1_def [symmetric] by auto
    with scan_failed [of rws ps q2] rws rq loop ReturnedFalse show thesis
      by (simp add: q1_def)
  next
    case (LoopDone k)
    with assms rws loop obtain bs rc bs' where
      "bldr q2 = Some bs" "NewRecord bs = Inr (rc, bs')" "b = (0 < k)"
      "q' = q2\<lparr>rows := Some (rws\<lparr>pending := ps\<rparr>), record' := Some rc, bldr := Some bs'\<rparr>"
      unfolding Next_def Let_def q1_def [symmetric]
      by (auto split: option.splits sum.splits)
    with finalised [of rws k ps q2 bs rc bs'] rws rq loop LoopDone show thesis
      by (simp add: q1_def)
  qed
qed


lemma Next_batch_bound:
  assumes "Next f df q = Inr (b, q')" and "bldr q = Some bs"
    and "list_all (\<lambda>fb. length (snd fb) \<le> m) bs" and "record' q' = Some rc"
  shows "NumRows rc \<le> m + maxBatchSize \<and> list_all (\<lambda>c. length c \<le> m + maxBatchSize) (Columns rc)"
  using assms(1)
proof (cases rule: Next_cases)
  case (scan_failed rws ps q2)
  from scan_loop_frame [OF scan_failed(2)] scan_failed(4) assms(4) show ?thesis
    by (auto split: option.splits)
next
  case (finalised rws k ps q2 bs2 rc2 bs')
  have w: "within m (bldr (case record' q of None \<Rightarrow> q
          | Some rc \<Rightarrow> q\<lparr>events := events q @ [record_Release], record' := None\<rparr>))"
    using assms(2,3) by (auto simp: within_def split: option.splits)
  from scan_loop_within [OF finalised(2) w] finalised(3)
  have cols: "list_all (\<lambda>fb. length (snd fb) \<le> m + maxBatchSize) bs2"
    by (simp add: within_def)
  then have cols': "list_all (\<lambda>c. length c \<le> m + maxBatchSize) (map snd bs2)"
    by (simp add: list_all_iff)
  from finalised(4) obtain n where n: "new_arrays 0 0 (map snd bs2) = Some n"
    and rc2: "rc2 = \<lparr>Columns = map snd bs2, NumRows = n\<rparr>"
    by (auto simp: NewRecord_def split: option.splits)
  from new_arrays_bound [OF n _ cols'] have "n \<le> m + maxBatchSize" by simp
  moreover have "rc = rc2" using finalised(6) assms(4) by simp
  ultimately show ?thesis using rc2 cols' by simp
qed

lemma scan_loop_fails_builder:
  assumes "bldr r = Some bs" and "schema r = Some sch"
    and "list_all (row_ok (map fst bs)) good" and "n + length good < maxBatchSize"
  shows "\<exists>r'. scan_loop f32 df n (good @ ScanFails msg # rest) r = Inr (ReturnedFalse, rest, r')
           \<and> bldr r' = Some (add_rows (map (row_cells f32 (map fst bs)) good) bs)"
  using assms
proof (induction good arbitrary: n r bs)
  case Nil
  then show ?case by simp
next
  case (Cons p good)
  from Cons.prems(3) obtain vs where p: "p = ScanFills vs"
    and vs: "list_all2 appendable (map fst bs) vs"
    and rest: "list_all (row_ok (map fst bs)) good"
    by (cases p) auto
  let ?cs = "map2 (cell_of f32) (map fst bs) vs"
  let ?bs = "add_cells ?cs bs"
  let ?r = "r\<lparr>rowdest := Some vs, bldr := Some ?bs\<rparr>"
  have len: "length ?cs = length bs"
    using list_all2_lengthD [OF vs] by simp
  have fst: "map fst ?bs = map fst bs"
    by (rule fst_add_cells [OF len])
  have ar: "append_row f32 vs (bldr r) = Inr (Some ?bs)"
    using append_fields_ok [OF vs, of f32] Cons.prems(1) by (simp add: append_row_def)
  have n: "n < maxBatchSize" and n': "Suc n + length good < maxBatchSize"
    using Cons.prems(4) by simp_all
  have step: "scan_loop f32 df n ((p # good) @ ScanFails msg # rest) r
                = scan_loop f32 df (Suc n) (good @ ScanFails msg # rest) ?r"
    using n ar by (simp add: p)
  have b: "bldr ?r = Some ?bs" and s: "schema ?r = Some sch"
    using Cons.prems(2) by simp_all
  from Cons.IH [OF b s _ n'] rest fst
  obtain r' where
    "scan_loop f32 df (Suc n) (good @ ScanFails msg # rest) ?r = Inr (ReturnedFalse, rest, r')"
    "bldr r' = Some (add_rows (map (row_cells f32 (map fst bs)) good) ?bs)"
    by auto
  then show ?case by (simp only: step) (simp add: p)
qed

lemma Next_fails:
  assumes "rows r = Some rws" and "schema r = Some sch" and "bldr r = Some bs"
    and "pending rws = good @ ScanFails msg # rest" and "length good < maxBatchSize"
    and "list_all (row_ok (map fst bs)) good"
  shows "\<exists>r'. Next f32 df r = Inr (False, r') \<and> record' r' = None
           \<and> err r' = Some (if df sch then ScanError msg else StatusUnknown msg sch)
           \<and> bldr r' = Some (add_rows (map (row_cells f32 (map fst bs)) good) bs)
           \<and> rows r' = Some (rws\<lparr>pending := rest\<rparr>) \<and> schema r' = Some sch"
proof -
  let ?r1 = "case record' r of None \<Rightarrow> r
             | Some rc \<Rightarrow> r\<lparr>events := events r @ [record_Release], record' := None\<rparr>"
  have r1: "rows ?r1 = Some rws" "bldr ?r1 = Some bs" "schema ?r1 = Some sch" "record' ?r1 = None"
    using assms(1,2,3) by (auto split: option.splits)
  have n: "0 + length good < maxBatchSize" using assms(5) by simp
  from scan_loop_fails_builder [OF r1(2) r1(3) assms(6) n, of f32 df msg rest]
  obtain r2 where
    loop: "scan_loop f32 df 0 (pending rws) ?r1 = Inr (ReturnedFalse, rest, r2)"
    and b2: "bldr r2 = Some (add_rows (map (row_cells f32 (map fst bs)) good) bs)"
    using assms(4) by auto
  from scan_loop_fails [OF r1(2) r1(3) assms(6) n, of f32 df msg rest] loop
  have e2: "err r2 = Some (if df sch then ScanError msg else StatusUnknown msg sch)"
    using assms(4) by auto
  note fr = scan_loop_frame [OF loop]
  show ?thesis
    using loop b2 e2 fr r1
    by (simp add: Next_def Let_def split del: if_split)
qed

lemma Next_from:
  assumes rws: "rows r = Some rws"
    and b: "bldr r = Some bs"
    and ne: "bs \<noteq> []"
    and m: "list_all (\<lambda>fb. length (snd fb) = m) bs"
    and ok: "list_all (row_ok (map fst bs)) (take maxBatchSize (pending rws))"
  shows "\<exists>r' rc. Next f32 df r = Inr (0 < min (length (pending rws)) maxBatchSize, r')
           \<and> record' r' = Some rc
           \<and> NumRows rc = m + min (length (pending rws)) maxBatchSize"
proof -
  let ?r1 = "case record' r of None \<Rightarrow> r
             | Some rc \<Rightarrow> r\<lparr>events := events r @ [record_Release], record' := None\<rparr>"
  let ?ps = "take maxBatchSize (pending rws)"
  let ?css = "map (row_cells f32 (map fst bs)) ?ps"
  let ?bs = "add_rows ?css bs"
  have r1: "rows ?r1 = Some rws" "bldr ?r1 = Some bs"
    using rws b by (auto split: option.splits)
  from scan_loop_ok [OF r1(2), of 0 "pending rws" f32 df] ok
  obtain r2 where
    loop: "scan_loop f32 df 0 (pending rws) ?r1 =
             Inr (LoopDone (min (length (pending rws)) maxBatchSize), drop maxBatchSize (pending rws), r2)"
    and b2: "bldr r2 = Some ?bs"
    by auto
  have lens: "list_all (\<lambda>cs. length cs = length bs) ?css"
    using ok by (induction ?ps) (auto simp: list_all_iff length_row_cells)
  note P = add_rows_props [OF lens]
  have "length (snd (?bs ! i)) = m + length ?ps" if "i < length bs" for i
    using P that m by (simp add: list_all_length)
  then have cols: "list_all (\<lambda>c. length c = m + length ?ps) (map snd ?bs)"
    using P by (simp add: list_all_length)
  have "map snd ?bs \<noteq> []" using P ne by auto
  from new_arrays_start [OF this cols]
  have nr: "NewRecord ?bs = Inr (\<lparr>Columns = map snd ?bs, NumRows = m + length ?ps\<rparr>,
              map (\<lambda>b. (fst b, [])) ?bs)"
    by (simp add: NewRecord_def)
  show ?thesis
    using loop b2 nr r1
    by (simp add: Next_def Let_def del: length_take length_map) simp
qed

lemma scan_loop_unappended:
  assumes "bldr r = Some bs" and "append_fields f vs bs = Inr bs"
  shows "\<exists>r'. scan_loop f df n (replicate k (ScanFills vs)) r =
            Inr (LoopDone (n + min k (maxBatchSize - n)),
                 replicate (k - (maxBatchSize - n)) (ScanFills vs), r')
          \<and> bldr r' = Some bs"
  using assms(1)
proof (induction k arbitrary: n r)
  case 0
  then show ?case by simp
next
  case (Suc k)
  show ?case
  proof (cases "n < maxBatchSize")
    case False
    then show ?thesis using Suc.prems by simp
  next
    case True
    let ?r = "r\<lparr>rowdest := Some vs, bldr := Some bs\<rparr>"
    have step: "scan_loop f df n (replicate (Suc k) (ScanFills vs)) r
                  = scan_loop f df (Suc n) (replicate k (ScanFills vs)) ?r"
      using True Suc.prems assms(2) by (simp add: append_row_def)
    have "bldr ?r = Some bs" by simp
    from Suc.IH [OF this, of "Suc n"] obtain r' where
      1: "scan_loop f df (Suc n) (replicate k (ScanFills vs)) ?r =
            Inr (LoopDone (Suc n + min k (maxBatchSize - Suc n)),
                 replicate (k - (maxBatchSize - Suc n)) (ScanFills vs), r')"
      and 2: "bldr r' = Some bs"
      by blast
    have a: "Suc n + min k (maxBatchSize - Suc n) = n + min (Suc k) (maxBatchSize - n)"
      using True by auto
    have b: "k - (maxBatchSize - Suc n) = Suc k - (maxBatchSize - n)"
      using True by auto
    show ?thesis
      using 1 2 by (simp only: step a b) blast
  qed
qed

subsection \<open>The example reader\<close>

lemma example_reader_fields:
  "refCount (example_reader ps) = 1"
  "rows (example_reader ps) = Some (example_rows ps)"
  "schema (example_reader ps) = Some example_schema"
  "bldr (example_reader ps) = Some (NewRecordBuilder example_schema)"
  "bldr (example_reader ps) = Some (empty_builder [INT32])"
  "record' (example_reader ps) = None"
  "events (example_reader ps) = []"
  "pending (example_rows ps) = ps"
  by (simp_all add: example_reader_def example_rows_def example_schema_def
      NewDuckDBBatchReaderWithSchema_def NewRecordBuilder_def empty_builder_def)

section \<open>The claims\<close>

text \<open>
  C1, as stated, fails. A call that ends in a failed scan leaves its rows in the builder
  (it returns before \<^verbatim>\<open>NewRecord\<close>, which alone empties it), and the next call adds up
  to 1024 rows to them: on a row, a failing scan and 1024 rows, the second call exposes a
  record of 1025 rows. And 1025 rows do not give a record of 1024 rows in every reader: the
  type switch of \<^verbatim>\<open>Next\<close> has no case for the \<^verbatim>\<open>*interface{}\<close> of a union column, so
  with one union column the first call returns true and exposes a record without rows; it
  does the same for a schema without fields.
\<close>

theorem C1_counterexample:
  "map_sum id (map_prod id (map_option NumRows \<circ> Record))
     (Nexts ucast details_attach 2
        (example_reader (ScanFills [P_NullInt32 7 True] # ScanFails ''boom'' #
                         replicate 1024 (ScanFills [P_NullInt32 7 True]))))
     = Inr ([False, True], Some 1025)
   \<and> map_sum id (map_prod id (map_option NumRows \<circ> Record))
     (Next ucast details_attach
        (NewDuckDBBatchReaderWithSchema
           [\<lparr>Name = ''u'', Type = duckDBDenseUnion, Nullable = True, Metadata = []\<rparr>]
           \<lparr>column_types = Inr [], pending = replicate 1025 (ScanFills [P_interface (AnyInt 7)])\<rparr>))
     = Inr (True, Some 0)
   \<and> map_sum id (map_prod id (map_option NumRows \<circ> Record))
     (Next ucast details_attach
        (NewDuckDBBatchReaderWithSchema []
           \<lparr>column_types = Inr [], pending = replicate 1025 (ScanFills [])\<rparr>))
     = Inr (True, Some 0)"
proof (intro conjI)
  let ?v = "ScanFills [P_NullInt32 7 True]"
  let ?ps = "?v # ScanFails ''boom'' # replicate 1024 ?v"
  have p: "pending (example_rows ?ps) = [?v] @ ScanFails ''boom'' # replicate 1024 ?v"
    by (simp add: example_reader_fields)
  have g: "length [?v] < maxBatchSize" by (simp add: maxBatchSize_def)
  have ok: "list_all (row_ok (map fst (NewRecordBuilder example_schema))) [?v]"
    by (simp add: NewRecordBuilder_def example_schema_def)
  from Next_fails [OF example_reader_fields(2) example_reader_fields(3) example_reader_fields(4)
      p g ok, of ucast details_attach]
  obtain r1 where n1: "Next ucast details_attach (example_reader ?ps) = Inr (False, r1)"
    and b1: "bldr r1 = Some [(INT32, [I32 7])]"
    and c1: "rows r1 = Some ((example_rows ?ps)\<lparr>pending := replicate 1024 ?v\<rparr>)"
    by (auto simp: NewRecordBuilder_def example_schema_def add_cells_def)
  have ne: "[(INT32, [I32 7])] \<noteq> ([] :: builder list)" by simp
  have m: "list_all (\<lambda>fb. length (snd fb) = 1) [(INT32, [I32 7])]" by simp
  have ok2: "list_all (row_ok (map fst [(INT32, [I32 7])]))
               (take maxBatchSize (pending ((example_rows ?ps)\<lparr>pending := replicate 1024 ?v\<rparr>)))"
    by (simp add: list_all_iff)
  from Next_from [OF c1 b1 ne m ok2, of ucast details_attach]
  obtain r2 rc where n2: "Next ucast details_attach r1 = Inr (True, r2)"
    and rc: "record' r2 = Some rc" and nr: "NumRows rc = 1025"
    by (auto simp: maxBatchSize_def)
  show "map_sum id (map_prod id (map_option NumRows \<circ> Record))
     (Nexts ucast details_attach 2 (example_reader ?ps)) = Inr ([False, True], Some 1025)"
    using n1 n2 rc nr by (simp add: numeral_2_eq_2 Record_def)
next
  let ?f = "\<lparr>Name = ''u'', Type = duckDBDenseUnion, Nullable = True, Metadata = []\<rparr>"
  let ?vs = "[P_interface (AnyInt 7)]"
  let ?rws = "\<lparr>column_types = Inr [], pending = replicate 1025 (ScanFills ?vs)\<rparr>"
  let ?r = "NewDuckDBBatchReaderWithSchema [?f] ?rws"
  have b: "bldr ?r = Some [(DENSE_UNION, [])]"
    by (simp add: NewDuckDBBatchReaderWithSchema_def NewRecordBuilder_def duckDBDenseUnion_def)
  have a: "append_fields ucast ?vs [(DENSE_UNION, [])] = Inr [(DENSE_UNION, [])]"
    by simp
  from scan_loop_unappended [OF b a, of details_attach 0 1025]
  obtain r' where "scan_loop ucast details_attach 0 (replicate 1025 (ScanFills ?vs)) ?r
      = Inr (LoopDone 1024, [ScanFills ?vs], r')" and "bldr r' = Some [(DENSE_UNION, [])]"
    by (auto simp: maxBatchSize_def)
  then show "map_sum id (map_prod id (map_option NumRows \<circ> Record))
     (Next ucast details_attach ?r) = Inr (True, Some 0)"
    by (simp add: Next_def NewDuckDBBatchReaderWithSchema_def NewRecord_def Record_def)
next
  let ?rws = "\<lparr>column_types = Inr [], pending = replicate 1025 (ScanFills [])\<rparr>"
  let ?r = "NewDuckDBBatchReaderWithSchema [] ?rws"
  have b: "bldr ?r = Some []"
    by (simp add: NewDuckDBBatchReaderWithSchema_def NewRecordBuilder_def)
  have a: "append_fields ucast [] [] = Inr []"
    by simp
  from scan_loop_unappended [OF b a, of details_attach 0 1025]
  obtain r' where "scan_loop ucast details_attach 0 (replicate 1025 (ScanFills [])) ?r
      = Inr (LoopDone 1024, [ScanFills []], r')" and "bldr r' = Some []"
    by (auto simp: maxBatchSize_def)
  then show "map_sum id (map_prod id (map_option NumRows \<circ> Record))
     (Next ucast details_attach ?r) = Inr (True, Some 0)"
    by (simp add: Next_def NewDuckDBBatchReaderWithSchema_def NewRecord_def Record_def)
qed

text \<open>
  C1, amended. Take a reader with at least one column whose builder is empty (no call
  that ended in a failed scan has left rows in it), on a cursor that holds exactly 1025
  rows, each of which scans and holds, for every column, an element that the type switch
  of \<^verbatim>\<open>Next\<close> appends to it. The first call of \<^verbatim>\<open>Next\<close> returns true and exposes a
  record of 1024 rows, every column of 1024 cells; the second returns true and exposes a
  record of 1 row; the third returns false (the record it leaves has no row). In any
  state and on any rows, a call of \<^verbatim>\<open>Next\<close> that returns has fetched at most 1024 rows
  from the cursor and has added at most 1024 cells to any column: if no column held more
  than \<open>m\<close> cells when it was called, the record it exposes has at most \<open>m + 1024\<close> rows,
  which is at most 1024 for a builder that was empty.
\<close>

theorem C1_batches_of_1025_rows:
  assumes "rows r = Some rws" and "bldr r = Some (empty_builder tids)" and "tids \<noteq> []"
    and "length (pending rws) = 1025" and "list_all (row_ok tids) (pending rws)"
  shows "(\<exists>r1 r2 r3 b1 b2 b3.
      Next f32 df r = Inr (True, r1) \<and> Record r1 = Some b1 \<and> NumRows b1 = 1024
        \<and> list_all (\<lambda>c. length c = 1024) (Columns b1)
    \<and> Next f32 df r1 = Inr (True, r2) \<and> Record r2 = Some b2 \<and> NumRows b2 = 1
        \<and> list_all (\<lambda>c. length c = 1) (Columns b2)
    \<and> Next f32 df r2 = Inr (False, r3) \<and> Record r3 = Some b3 \<and> NumRows b3 = 0)
    \<and> (\<forall>q b q' qrows. Next f32 df q = Inr (b, q') \<and> rows q = Some qrows \<longrightarrow>
          (\<exists>qrows'. rows q' = Some qrows' \<and>
             length (pending qrows) \<le> length (pending qrows') + 1024))
    \<and> (\<forall>q b q' qb m rc. Next f32 df q = Inr (b, q') \<and> bldr q = Some qb
          \<and> list_all (\<lambda>fb. length (snd fb) \<le> m) qb \<and> Record q' = Some rc \<longrightarrow>
          NumRows rc \<le> m + 1024 \<and> list_all (\<lambda>c. length c \<le> m + 1024) (Columns rc))"
proof (intro conjI allI impI)
  let ?ps = "pending rws"
  have ok1: "list_all (row_ok tids) (take maxBatchSize ?ps)"
    by (rule list_all_take [OF assms(5)])
  from Next_ok [OF assms(1,2,3) ok1, of f32 df] assms(4)
  obtain r1 b1 where
    n1: "Next f32 df r = Inr (True, r1)" and rec1: "record' r1 = Some b1"
    and rows1: "NumRows b1 = 1024" and cols1: "list_all (\<lambda>c. length c = NumRows b1) (Columns b1)"
    and bl1: "bldr r1 = Some (empty_builder tids)"
    and cur1: "rows r1 = Some (rws\<lparr>pending := drop maxBatchSize ?ps\<rparr>)"
    by (auto simp: maxBatchSize_def)
  let ?rws1 = "rws\<lparr>pending := drop maxBatchSize ?ps\<rparr>"
  have len1: "length (pending ?rws1) = 1"
    using assms(4) by (simp add: maxBatchSize_def)
  have ok2: "list_all (row_ok tids) (take maxBatchSize (pending ?rws1))"
    using list_all_take [OF list_all_drop [OF assms(5)]] by simp
  from Next_ok [OF cur1 bl1 assms(3) ok2, of f32 df] len1
  obtain r2 b2 where
    n2: "Next f32 df r1 = Inr (True, r2)" and rec2: "record' r2 = Some b2"
    and rows2: "NumRows b2 = 1" and cols2: "list_all (\<lambda>c. length c = NumRows b2) (Columns b2)"
    and bl2: "bldr r2 = Some (empty_builder tids)"
    and cur2: "rows r2 = Some (?rws1\<lparr>pending := drop maxBatchSize (pending ?rws1)\<rparr>)"
    by (auto simp: maxBatchSize_def)
  let ?rws2 = "?rws1\<lparr>pending := drop maxBatchSize (pending ?rws1)\<rparr>"
  have len2: "length (pending ?rws2) = 0"
    using len1 by (simp add: maxBatchSize_def)
  have ok3: "list_all (row_ok tids) (take maxBatchSize (pending ?rws2))"
    using len2 by simp
  from Next_ok [OF cur2 bl2 assms(3) ok3, of f32 df] len2
  obtain r3 b3 where
    n3: "Next f32 df r2 = Inr (False, r3)" and rec3: "record' r3 = Some b3"
    and rows3: "NumRows b3 = 0"
    by (auto simp: maxBatchSize_def)
  show "\<exists>r1 r2 r3 b1 b2 b3.
      Next f32 df r = Inr (True, r1) \<and> Record r1 = Some b1 \<and> NumRows b1 = 1024
        \<and> list_all (\<lambda>c. length c = 1024) (Columns b1)
    \<and> Next f32 df r1 = Inr (True, r2) \<and> Record r2 = Some b2 \<and> NumRows b2 = 1
        \<and> list_all (\<lambda>c. length c = 1) (Columns b2)
    \<and> Next f32 df r2 = Inr (False, r3) \<and> Record r3 = Some b3 \<and> NumRows b3 = 0"
    using n1 rec1 rows1 cols1 n2 rec2 rows2 cols2 n3 rec3 rows3
    by (auto simp: Record_def)
next
  fix q b q' qrows
  assume "Next f32 df q = Inr (b, q') \<and> rows q = Some qrows"
  then show "\<exists>qrows'. rows q' = Some qrows' \<and>
             length (pending qrows) \<le> length (pending qrows') + 1024"
    using Next_consumes [of f32 df q b q' qrows] by (simp add: maxBatchSize_def)
next
  fix q b q' qb m rc
  assume "Next f32 df q = Inr (b, q') \<and> bldr q = Some qb
          \<and> list_all (\<lambda>fb. length (snd fb) \<le> m) qb \<and> Record q' = Some rc"
  then have "NumRows rc \<le> m + maxBatchSize
      \<and> list_all (\<lambda>c. length c \<le> m + maxBatchSize) (Columns rc)"
    using Next_batch_bound [of f32 df q b q' qb m rc] by (simp add: Record_def)
  then show "NumRows rc \<le> m + 1024" and "list_all (\<lambda>c. length c \<le> m + 1024) (Columns rc)"
    by (simp_all add: maxBatchSize_def)
qed

text \<open>
  C1 at the example reader, on 1025 rows that each hold the valid value 7.
\<close>

theorem C1_batches_of_1025_rows_witness:
  "\<exists>r1 r2 r3 b1 b2 b3.
      Next ucast details_attach (example_reader (replicate 1025 (ScanFills [P_NullInt32 7 True])))
        = Inr (True, r1) \<and> Record r1 = Some b1 \<and> NumRows b1 = 1024
        \<and> list_all (\<lambda>c. length c = 1024) (Columns b1)
    \<and> Next ucast details_attach r1 = Inr (True, r2) \<and> Record r2 = Some b2 \<and> NumRows b2 = 1
        \<and> list_all (\<lambda>c. length c = 1) (Columns b2)
    \<and> Next ucast details_attach r2 = Inr (False, r3) \<and> Record r3 = Some b3 \<and> NumRows b3 = 0"
proof -
  let ?ps = "replicate 1025 (ScanFills [P_NullInt32 7 True])"
  have 1: "[INT32] \<noteq> []" by simp
  have 2: "length (pending (example_rows ?ps)) = 1025"
    by (simp add: example_reader_fields)
  have 3: "list_all (row_ok [INT32]) (pending (example_rows ?ps))"
    by (simp add: example_reader_fields list_all_iff)
  show ?thesis
    by (rule C1_batches_of_1025_rows
        [OF example_reader_fields(2) example_reader_fields(5) 1 2 3, THEN conjunct1])
qed




text \<open>
  C3. Both constructors set the count to 1. Take a reader whose count is 1, with its cursor
  and its builder, and \<open>N < 2 ^ 64\<close> (the count is an \<^verbatim>\<open>int64\<close>, which wraps around).
  After \<open>N\<close> calls of \<^verbatim>\<open>Retain\<close>, any \<open>k \<le> N\<close> calls of \<^verbatim>\<open>Release\<close> change the count
  and nothing else: nothing is called on the cursor, the builder or the record. Release
  number \<open>N + 1\<close> brings the count to zero and tears down: it closes the cursor, then
  releases the builder, then the record if one is retained, each once, and clears the
  fields.
\<close>

theorem C3_teardown_on_last_release:
  assumes "refCount r = 1" and "rows r = Some rws" and "bldr r = Some bs" and "N < 2 ^ 64"
  shows "refCount (NewDuckDBBatchReaderWithSchema sch rws0) = 1
    \<and> (NewDuckDBBatchReader u md rws0 = Inr r0 \<longrightarrow> refCount r0 = 1)
    \<and> (\<forall>k\<le>N. releases k (retains N r) = Inr (r\<lparr>refCount := 1 + of_nat N - of_nat k\<rparr>))
    \<and> releases (Suc N) (retains N r) =
         Inr (r\<lparr>refCount := 0, rows := None, schema := None, rowdest := None, bldr := None,
                record' := None,
                events := events r @ rows_Close # bldr_Release #
                  (case record' r of None \<Rightarrow> [] | Some rc \<Rightarrow> [record_Release])\<rparr>)"
proof (intro conjI allI impI)
  show "refCount (NewDuckDBBatchReaderWithSchema sch rws0) = 1"
    by (simp add: NewDuckDBBatchReaderWithSchema_def)
  show "refCount r0 = 1" if "NewDuckDBBatchReader u md rws0 = Inr r0"
    using that by (auto simp: NewDuckDBBatchReader_def split: sum.splits)
  let ?r = "retains N r"
  have cnt: "refCount ?r = 1 + of_nat N"
    using assms(1) by (simp add: retains_fields)
  have upto: "releases k ?r = Inr (?r\<lparr>refCount := refCount ?r - of_nat k\<rparr>)" if "k \<le> N" for k
  proof (rule releases_no_teardown)
    fix j :: nat assume "0 < j" "j \<le> k"
    with that count_differs [OF assms(4), of j] cnt show "refCount ?r \<noteq> of_nat j" by simp
  qed
  show "releases k ?r = Inr (r\<lparr>refCount := 1 + of_nat N - of_nat k\<rparr>)" if "k \<le> N" for k
    using upto [OF that] assms(1) by (simp add: retains_fields)
  have "releases N ?r = Inr (r\<lparr>refCount := 1 + of_nat N - of_nat N\<rparr>)"
    using upto [of N] assms(1) by (simp add: retains_fields)
  also have "r\<lparr>refCount := 1 + of_nat N - of_nat N\<rparr> = r"
    using assms(1) by simp
  finally have last: "releases N ?r = Inr r" .
  show "releases (Suc N) ?r =
         Inr (r\<lparr>refCount := 0, rows := None, schema := None, rowdest := None, bldr := None,
                record' := None,
                events := events r @ rows_Close # bldr_Release #
                  (case record' r of None \<Rightarrow> [] | Some rc \<Rightarrow> [record_Release])\<rparr>)"
    using releases_add [OF last, of 1] Release_teardown [OF assms(1,2,3)] by simp
qed

text \<open>
  C3 at the example reader and \<open>N = 2\<close>: no call is made by the first and the second
  \<^verbatim>\<open>Release\<close>, and the third closes the cursor and releases the builder.
\<close>

theorem C3_teardown_on_last_release_witness:
  "refCount (example_reader []) = 1
   \<and> map_sum id events (releases 1 (retains 2 (example_reader []))) = Inr []
   \<and> map_sum id events (releases 2 (retains 2 (example_reader []))) = Inr []
   \<and> map_sum id events (releases 3 (retains 2 (example_reader []))) = Inr [rows_Close, bldr_Release]"
proof -
  have n: "(2::nat) < 2 ^ 64" by simp
  note T = C3_teardown_on_last_release
    [OF example_reader_fields(1) example_reader_fields(2) example_reader_fields(4) n,
     of example_schema "example_rows []" id no_metadata "example_reader []"]
  from T have a: "\<forall>k\<le>2. releases k (retains 2 (example_reader []))
                   = Inr ((example_reader [])\<lparr>refCount := 1 + of_nat 2 - of_nat k\<rparr>)"
    by blast
  from a have 1: "releases 1 (retains 2 (example_reader []))
                   = Inr ((example_reader [])\<lparr>refCount := 1 + of_nat 2 - of_nat 1\<rparr>)"
    by (rule allE [of _ 1]) simp
  from a have 2: "releases 2 (retains 2 (example_reader []))
                   = Inr ((example_reader [])\<lparr>refCount := 1 + of_nat 2 - of_nat 2\<rparr>)"
    by (rule allE [of _ 2]) simp
  from T have 3: "releases (Suc 2) (retains 2 (example_reader [])) =
         Inr ((example_reader [])\<lparr>refCount := 0, rows := None, schema := None, rowdest := None,
                bldr := None, record' := None,
                events := events (example_reader []) @ rows_Close # bldr_Release #
                  (case record' (example_reader []) of None \<Rightarrow> [] | Some rc \<Rightarrow> [record_Release])\<rparr>)"
    by blast
  have s3: "Suc 2 = (3::nat)" by simp
  show ?thesis
    using 1 2 3 unfolding s3 by (simp add: example_reader_fields)
qed

text \<open>
  C4. For every declared type name of the mapping table, written in any letter case, and
  for every name that begins with \<^verbatim>\<open>varchar\<close> (in any letter case, whatever follows, such
  as a length qualifier), \<^verbatim>\<open>getArrowTypeFromString\<close> returns the documented type, and so
  does \<^verbatim>\<open>getArrowType\<close> for a column that declares that name. The result is a function
  of the name alone. "In any letter case" is: the name with \<^verbatim>\<open>A\<close>..\<^verbatim>\<open>Z\<close> lowered is the
  table's name.
\<close>

theorem C4_mapping_table:
  "((n, t) \<in> set mapping_table \<and> map lower_byte s = n \<longrightarrow>
      getArrowTypeFromString u s = Inr t \<and>
      (col_DatabaseTypeName c = s \<longrightarrow> getArrowType u c = Inr t))
   \<and> (list_all is_ascii s \<and> HasPrefix (map lower_byte s) ''varchar'' \<longrightarrow>
      getArrowTypeFromString u s = Inr String \<and>
      (col_DatabaseTypeName c = s \<longrightarrow> getArrowType u c = Inr String))"
proof (intro conjI impI)
  assume a: "(n, t) \<in> set mapping_table \<and> map lower_byte s = n"
  then have mem: "(n, t) \<in> set mapping_table" and lw: "map lower_byte s = n"
    by simp_all
  have low: "ToLower u s = n"
    by (rule ToLower_of_lowered [OF lw table_ascii [OF mem]])
  show "getArrowTypeFromString u s = Inr t"
    by (rule from_lowered [OF mem low])
  assume c: "col_DatabaseTypeName c = s"
  have "ToLower u n = n"
    using a table_ascii [of n t] table_lower [of n t] by (simp add: ToLower_def)
  then have "getArrowTypeFromString u n = Inr t"
    by (rule from_lowered [OF mem])
  then show "getArrowType u c = Inr t"
    using getArrowType_nonempty [of u c n] low c a table_nonempty [of n t] by simp
next
  assume a: "list_all is_ascii s \<and> HasPrefix (map lower_byte s) ''varchar''"
  then have low: "ToLower u s = map lower_byte s"
    by (simp add: ToLower_def)
  show "getArrowTypeFromString u s = Inr String"
    using a by (intro varchar_prefix [OF low]) simp
  assume c: "col_DatabaseTypeName c = s"
  let ?d = "map lower_byte s"
  have ne: "?d \<noteq> []" using a by (auto simp: HasPrefix_def)
  have asc: "list_all is_ascii ?d" using a by (simp add: list_all_ascii_lower)
  have pre: "HasPrefix (ToLower u ?d) ''varchar''"
  proof -
    have tk: "take (length ''varchar'') ?d = ''varchar''"
      using a unfolding HasPrefix_def by blast
    have "take (length ''varchar'') (map lower_byte ?d)
            = map lower_byte (take (length ''varchar'') ?d)"
      by (simp only: take_map)
    also have "\<dots> = map lower_byte ''varchar''"
      by (simp only: tk)
    also have "\<dots> = ''varchar''"
      by (simp add: lower_byte_def)
    finally have "HasPrefix (map lower_byte ?d) ''varchar''"
      unfolding HasPrefix_def .
    then show ?thesis using asc by (simp add: ToLower_def)
  qed
  have "getArrowTypeFromString u ?d = Inr String"
    by (rule varchar_prefix [OF refl pre])
  then show "getArrowType u c = Inr String"
    using getArrowType_nonempty [of u c ?d] low c ne by simp
qed

text \<open>
  C4 at \<^verbatim>\<open>TimeStamp\<close> and at \<^verbatim>\<open>VarChar(255)\<close>.
\<close>

theorem C4_mapping_table_witness:
  "getArrowTypeFromString id ''TimeStamp'' = Inr Timestamp_us
   \<and> getArrowType id \<lparr>col_Name = ''t'', col_DatabaseTypeName = ''TimeStamp'', col_Nullable = True,
        col_ScanType = None\<rparr> = Inr Timestamp_us
   \<and> getArrowTypeFromString id ''VarChar(255)'' = Inr String
   \<and> getArrowType id \<lparr>col_Name = ''t'', col_DatabaseTypeName = ''VarChar(255)'', col_Nullable = True,
        col_ScanType = None\<rparr> = Inr String"
proof -
  have 1: "(''timestamp'', Timestamp_us) \<in> set mapping_table"
    by (simp add: mapping_table_def)
  have 2: "map lower_byte ''TimeStamp'' = ''timestamp''"
    by code_simp
  have 3: "list_all is_ascii ''VarChar(255)''"
    by code_simp
  have 4: "HasPrefix (map lower_byte ''VarChar(255)'') ''varchar''"
    by code_simp
  show ?thesis
    using 1 2 3 4
      C4_mapping_table [of "''timestamp''" Timestamp_us "''TimeStamp''" id
        "\<lparr>col_Name = ''t'', col_DatabaseTypeName = ''TimeStamp'', col_Nullable = True, col_ScanType = None\<rparr>"]
      C4_mapping_table [of "''x''" Int8 "''VarChar(255)''" id
        "\<lparr>col_Name = ''t'', col_DatabaseTypeName = ''VarChar(255)'', col_Nullable = True, col_ScanType = None\<rparr>"]
    by simp
qed

text \<open>
  C5 does not hold of the code. The switch of the constructors has no case for the type ids
  of int16, boolean, date32, time32, timestamp and null, all of which the type mapping
  produces: for a field of such a type the element of \<^verbatim>\<open>rowdest\<close> stays nil. Here both
  constructors on one int16 field (declared \<^verbatim>\<open>smallint\<close>), and the allocation for each of
  the six type ids, nullable or not. An int8 field gets the \<^verbatim>\<open>uint8\<close> destination of the
  shared case label, which \<^verbatim>\<open>Next\<close> appends through \<^verbatim>\<open>fb.(*array.Uint8Builder)\<close>: on
  the \<^verbatim>\<open>Int8Builder\<close> of the field the assertion panics at the first row.
\<close>

theorem C5_no_destination_for_int16:
  "rowdest (NewDuckDBBatchReaderWithSchema
      [\<lparr>Name = ''n'', Type = Int16, Nullable = False, Metadata = []\<rparr>]
      \<lparr>column_types = Inr [], pending = []\<rparr>) = Some [NoDest]
   \<and> map_sum id rowdest (NewDuckDBBatchReader id no_metadata
      \<lparr>column_types = Inr [\<lparr>col_Name = ''n'', col_DatabaseTypeName = ''smallint'',
                              col_Nullable = False, col_ScanType = None\<rparr>],
       pending = []\<rparr>) = Inr (Some [NoDest])
   \<and> newRowDest INT16 True = NoDest \<and> newRowDest BOOL False = NoDest
   \<and> newRowDest BOOL True = NoDest \<and> newRowDest DATE32 False = NoDest
   \<and> newRowDest DATE32 True = NoDest \<and> newRowDest TIME32 False = NoDest
   \<and> newRowDest TIME32 True = NoDest \<and> newRowDest TIMESTAMP False = NoDest
   \<and> newRowDest TIMESTAMP True = NoDest \<and> newRowDest NULL False = NoDest
   \<and> newRowDest NULL True = NoDest
   \<and> newRowDest INT8 False = P_uint8 0
   \<and> Next ucast details_attach
        (NewDuckDBBatchReaderWithSchema
           [\<lparr>Name = ''n'', Type = Int8, Nullable = False, Metadata = []\<rparr>]
           \<lparr>column_types = Inr [], pending = [ScanFills [P_uint8 7]]\<rparr>)
       = Inl TypeAssertion"
  by (simp add: NewDuckDBBatchReaderWithSchema_def NewDuckDBBatchReader_def newRowDest_def
      newField_def getArrowType_def getArrowTypeFromString_def ToLower_def is_ascii_def
      lower_byte_def HasPrefix_def no_metadata_def Next_def NewRecordBuilder_def
      maxBatchSize_def append_row_def append_as_def)



text \<open>
  C7 does not hold of the code. \<^verbatim>\<open>Next\<close> tests \<^verbatim>\<open>v == nil\<close>, where \<^verbatim>\<open>v\<close> is the
  pointer to the slice, not the slice \<^verbatim>\<open>*v\<close>; the pointer is never nil, so a nil slice is
  appended as a value of length 0. A binary field on a row whose scan left the slice nil, and on a row
  whose scan left it empty: the two records are the same, and neither holds a null.
\<close>

theorem C7_nil_bytes_appended_as_empty:
  "map_sum id (map_prod id Record)
     (Next ucast details_attach
        (NewDuckDBBatchReaderWithSchema
           [\<lparr>Name = ''b'', Type = Binary, Nullable = True, Metadata = []\<rparr>]
           \<lparr>column_types = Inr [], pending = [ScanFills [P_bytes None]]\<rparr>))
     = Inr (True, Some \<lparr>Columns = [[Bin []]], NumRows = 1\<rparr>)
   \<and> map_sum id (map_prod id Record)
     (Next ucast details_attach
        (NewDuckDBBatchReaderWithSchema
           [\<lparr>Name = ''b'', Type = Binary, Nullable = True, Metadata = []\<rparr>]
           \<lparr>column_types = Inr [], pending = [ScanFills [P_bytes (Some [])]]\<rparr>))
     = Inr (True, Some \<lparr>Columns = [[Bin []]], NumRows = 1\<rparr>)
   \<and> newRowDest BINARY True = P_bytes None"
  by (simp add: Next_def NewDuckDBBatchReaderWithSchema_def NewRecordBuilder_def newRowDest_def
      maxBatchSize_def append_row_def append_as_def NewRecord_def Record_def)

text \<open>
  C8. A declared type name that, lowered, is not empty, does not begin with \<^verbatim>\<open>varchar\<close>
  and is not in the mapping table makes \<^verbatim>\<open>getArrowTypeFromString\<close> panic with
  "invalid DuckDB type: " and the lowered name; no type is returned for it. For a column
  that declares it \<^verbatim>\<open>getArrowType\<close> panics in the same way, and
  \<^verbatim>\<open>NewDuckDBBatchReader\<close> on a cursor with such a column returns no reader and has not
  touched the cursor: the failure precedes every row. \<^verbatim>\<open>getArrowType\<close> lowers the name
  before it passes it on, so the name is lowered twice: the second hypothesis says that
  lowering the lowered name changes nothing, which holds for every ASCII name.
\<close>

theorem C8_unsupported_type_panics:
  assumes "ToLower u s = d" and "ToLower u d = d"
    and "d \<noteq> []" and "\<not> HasPrefix d ''varchar''" and "d \<notin> fst ` set mapping_table"
  shows "getArrowTypeFromString u s = Inl (Panic (''invalid DuckDB type: '' @ d))
    \<and> (col_DatabaseTypeName c = s \<longrightarrow>
         getArrowType u c = Inl (Panic (''invalid DuckDB type: '' @ d))
         \<and> newField u md i c = Inl (Panic (''invalid DuckDB type: '' @ d))
         \<and> (column_types rws = Inr cols \<and> c \<in> set cols \<longrightarrow>
              (\<exists>e. NewDuckDBBatchReader u md rws = Inl (e, []))))"
proof (intro conjI impI)
  show "getArrowTypeFromString u s = Inl (Panic (''invalid DuckDB type: '' @ d))"
    by (rule unsupported_panics [OF assms(1,3,4,5)])
  assume c: "col_DatabaseTypeName c = s"
  have "getArrowTypeFromString u d = Inl (Panic (''invalid DuckDB type: '' @ d))"
    by (rule unsupported_panics [OF assms(2,3,4,5)])
  then show g: "getArrowType u c = Inl (Panic (''invalid DuckDB type: '' @ d))"
    using getArrowType_nonempty [of u c d] assms(1,3) c by simp
  then show "newField u md i c = Inl (Panic (''invalid DuckDB type: '' @ d))"
    by (simp add: newField_def)
  assume "column_types rws = Inr cols \<and> c \<in> set cols"
  then have ct: "column_types rws = Inr cols" and mem: "c \<in> set cols" by simp_all
  from newFields_fail [OF mem g, of md 0] obtain e' where "newFields u md 0 cols = Inl e'" ..
  then show "\<exists>e. NewDuckDBBatchReader u md rws = Inl (e, [])"
    using ct by (simp add: NewDuckDBBatchReader_def)
qed

text \<open>
  C8 at \<^verbatim>\<open>Decimal(10,2)\<close>, as the second column of a cursor.
\<close>

theorem C8_unsupported_type_panics_witness:
  "getArrowTypeFromString id ''Decimal(10,2)'' = Inl (Panic ''invalid DuckDB type: decimal(10,2)'')
   \<and> getArrowType id \<lparr>col_Name = ''price'', col_DatabaseTypeName = ''Decimal(10,2)'',
        col_Nullable = True, col_ScanType = None\<rparr>
       = Inl (Panic ''invalid DuckDB type: decimal(10,2)'')
   \<and> (\<exists>e. NewDuckDBBatchReader id no_metadata
          \<lparr>column_types = Inr [\<lparr>col_Name = ''id'', col_DatabaseTypeName = ''integer'',
                                  col_Nullable = False, col_ScanType = None\<rparr>,
                                 \<lparr>col_Name = ''price'', col_DatabaseTypeName = ''Decimal(10,2)'',
                                  col_Nullable = True, col_ScanType = None\<rparr>],
           pending = []\<rparr> = Inl (e, []))"
proof -
  let ?c = "\<lparr>col_Name = ''price'', col_DatabaseTypeName = ''Decimal(10,2)'',
        col_Nullable = True, col_ScanType = None\<rparr>"
  let ?cols = "[\<lparr>col_Name = ''id'', col_DatabaseTypeName = ''integer'',
                                  col_Nullable = False, col_ScanType = None\<rparr>, ?c]"
  have 1: "ToLower id ''Decimal(10,2)'' = ''decimal(10,2)''" by code_simp
  have 2: "ToLower id ''decimal(10,2)'' = ''decimal(10,2)''" by code_simp
  have 3: "''decimal(10,2)'' \<noteq> []" by simp
  have 4: "\<not> HasPrefix ''decimal(10,2)'' ''varchar''" by (simp add: HasPrefix_def)
  have 5: "''decimal(10,2)'' \<notin> fst ` set mapping_table" by (simp add: mapping_table_def)
  show ?thesis
    using C8_unsupported_type_panics [OF 1 2 3 4 5, of ?c no_metadata 0
        "\<lparr>column_types = Inr ?cols, pending = []\<rparr>" ?cols]
    by simp
qed

text \<open>
  C9, as stated, fails: for an empty declared type name and a scan type whose kind the
  switch does not list (here a slice, the scan type of a byte sequence), no error is raised;
  \<^verbatim>\<open>getArrowType\<close> falls through to \<^verbatim>\<open>getArrowTypeFromString("")\<close>, which returns the
  null type.
\<close>

theorem C9_counterexample:
  "getArrowType id \<lparr>col_Name = ''c'', col_DatabaseTypeName = [], col_Nullable = False,
     col_ScanType = Some reflect_Slice\<rparr> = Inr NullType"
  by (simp add: getArrowType_def getArrowTypeFromString_def ToLower_def)

text \<open>
  C9, amended. For an empty declared type name: without a scan type the result is the
  dense union of int64, float64 and string; with a scan type of a kind that the switch
  lists it is the type of that kind; with a scan type whose kind is neither an integer, a
  float, a string nor a boolean it is the null type, and no error is raised.
\<close>

theorem C9_empty_declared_name:
  "col_DatabaseTypeName c = [] \<Longrightarrow>
   (col_ScanType c = None \<longrightarrow> getArrowType u c = Inr duckDBDenseUnion)
   \<and> (\<forall>k t. col_ScanType c = Some k \<and> enumerated k = Some t \<longrightarrow> getArrowType u c = Inr t)
   \<and> (\<forall>k. col_ScanType c = Some k \<and> other_kind k \<longrightarrow> getArrowType u c = Inr NullType)"
  by (auto simp: getArrowType_def getArrowTypeFromString_def ToLower_def enumerated_def
      other_kind_def split: if_splits)

text \<open>
  C9, amended, at no scan type, at a 16-bit unsigned integer and at a struct (the scan type
  of a time).
\<close>

theorem C9_empty_declared_name_witness:
  "getArrowType id \<lparr>col_Name = ''c'', col_DatabaseTypeName = [], col_Nullable = False,
     col_ScanType = None\<rparr> = Inr duckDBDenseUnion
   \<and> getArrowType id \<lparr>col_Name = ''c'', col_DatabaseTypeName = [], col_Nullable = False,
     col_ScanType = Some reflect_Uint16\<rparr> = Inr Int16
   \<and> getArrowType id \<lparr>col_Name = ''c'', col_DatabaseTypeName = [], col_Nullable = False,
     col_ScanType = Some reflect_Struct\<rparr> = Inr NullType"
  using
    C9_empty_declared_name [of "\<lparr>col_Name = ''c'', col_DatabaseTypeName = [], col_Nullable = False,
     col_ScanType = None\<rparr>" id]
    C9_empty_declared_name [of "\<lparr>col_Name = ''c'', col_DatabaseTypeName = [], col_Nullable = False,
     col_ScanType = Some reflect_Uint16\<rparr>" id]
    C9_empty_declared_name [of "\<lparr>col_Name = ''c'', col_DatabaseTypeName = [], col_Nullable = False,
     col_ScanType = Some reflect_Struct\<rparr>" id]
  by (simp add: enumerated_def other_kind_def)

text \<open>
  C10. After a \<^verbatim>\<open>Release\<close> that returns with the count at zero, \<^verbatim>\<open>Schema()\<close> and
  \<^verbatim>\<open>Record()\<close> are nil, and so are the row destinations, the builder and the cursor. On a
  reader whose count is 1, with its cursor and its builder, \<^verbatim>\<open>Release\<close> is such a call.
\<close>

theorem C10_accessors_nil_after_teardown:
  "(Release r = Inr r' \<and> refCount r' = 0 \<longrightarrow>
      Schema r' = None \<and> Record r' = None \<and> rowdest r' = None \<and> bldr r' = None \<and> rows r' = None)
   \<and> (refCount r = 1 \<and> rows r = Some rws \<and> bldr r = Some bs \<longrightarrow>
      (\<exists>q. Release r = Inr q \<and> refCount q = 0))"
  by (auto simp: Release_def Let_def Schema_def Record_def split: option.splits if_splits)

text \<open>
  C10 at the example reader.
\<close>

theorem C10_accessors_nil_after_teardown_witness:
  "\<exists>q. Release (example_reader []) = Inr q \<and> refCount q = 0
       \<and> Schema q = None \<and> Record q = None"
proof -
  from C10_accessors_nil_after_teardown
    [of "example_reader []" "example_reader []" "example_rows []"
       "NewRecordBuilder example_schema"]
  obtain q where q: "Release (example_reader []) = Inr q" "refCount q = 0"
    by (auto simp: example_reader_fields)
  with C10_accessors_nil_after_teardown [of "example_reader []" q] show ?thesis
    by blast
qed

end
